theory Spec2Isabelle
  imports Main "HOL-Library.Word"
begin

section \<open>Data model\<close>

text \<open>
  The three scripts under \<^verbatim>\<open>access-module-encoding/scripts\<close> work on Python
  \<^verbatim>\<open>bytes\<close> and \<^verbatim>\<open>str\<close> values. A byte is an 8-bit word; a \<^verbatim>\<open>str\<close> is a list
  of Unicode code points, each a natural number. Python code points are below
  \<^verbatim>\<open>0x110000\<close>; the encoders below reject any larger number, so that every
  text an encoder accepts is a Python string.
\<close>

type_synonym byte = "8 word"
type_synonym str = "nat list"

text \<open>The exceptions the scripts can meet.\<close>

datatype py_error =
    UnicodeDecodeError
  | UnicodeEncodeError
  | FileNotFoundError
  | IsADirectoryError
  | ValueError

text \<open>The encoding labels (Python strings in the source).\<close>

datatype label =
    Utf8Bom          \<comment> \<open>\<^verbatim>\<open>"utf8-bom"\<close>\<close>
  | Utf8BomInvalid   \<comment> \<open>\<^verbatim>\<open>"utf8-bom-invalid"\<close>\<close>
  | Utf16Le          \<comment> \<open>\<^verbatim>\<open>"utf16-le"\<close>\<close>
  | Utf16Be          \<comment> \<open>\<^verbatim>\<open>"utf16-be"\<close>\<close>
  | Binary           \<comment> \<open>\<^verbatim>\<open>"binary"\<close>\<close>
  | Utf8             \<comment> \<open>\<^verbatim>\<open>"utf8"\<close>\<close>
  | AnsiCp1252       \<comment> \<open>\<^verbatim>\<open>"ansi-cp1252"\<close>\<close>
  | AsciiOnly        \<comment> \<open>\<^verbatim>\<open>"ascii-only"\<close>\<close>
  | Unknown          \<comment> \<open>\<^verbatim>\<open>"unknown"\<close>, set by \<^verbatim>\<open>main\<close> when a file raised\<close>

text \<open>The per-file outcomes (Python strings in the source).\<close>

datatype action =
    Skip | DecodeError | Ok | DryRun | BackupExists | Write | Error

section \<open>Python's codecs\<close>

subsection \<open>Strict UTF-8\<close>

text \<open>
  \<^verbatim>\<open>bytes.decode("utf-8")\<close>: shortest-form sequences only, no surrogates, nothing
  above \<^verbatim>\<open>U+10FFFF\<close>. \<open>None\<close> stands for \<^verbatim>\<open>UnicodeDecodeError\<close>.
\<close>

definition is_cont :: "byte \<Rightarrow> bool" where
  "is_cont b \<longleftrightarrow> 0x80 \<le> unat b \<and> unat b \<le> 0xBF"

definition cont_bits :: "byte \<Rightarrow> nat" where
  "cont_bits b = unat b - 0x80"

definition second_ok3 :: "nat \<Rightarrow> byte \<Rightarrow> bool" where
  \<comment> \<open>the second byte of a three-byte sequence with lead byte \<open>n0\<close>\<close>
  "second_ok3 n0 b \<longleftrightarrow>
     (if n0 = 0xE0 then 0xA0 \<le> unat b \<and> unat b \<le> 0xBF
      else if n0 = 0xED then 0x80 \<le> unat b \<and> unat b \<le> 0x9F
      else is_cont b)"

definition second_ok4 :: "nat \<Rightarrow> byte \<Rightarrow> bool" where
  \<comment> \<open>the second byte of a four-byte sequence with lead byte \<open>n0\<close>\<close>
  "second_ok4 n0 b \<longleftrightarrow>
     (if n0 = 0xF0 then 0x90 \<le> unat b \<and> unat b \<le> 0xBF
      else if n0 = 0xF4 then 0x80 \<le> unat b \<and> unat b \<le> 0x8F
      else is_cont b)"

fun utf8_decode :: "byte list \<Rightarrow> str option" where
  "utf8_decode [] = Some []"
| "utf8_decode (b0 # bs) =
     (if unat b0 < 0x80 then map_option ((#) (unat b0)) (utf8_decode bs)
      else if 0xC2 \<le> unat b0 \<and> unat b0 \<le> 0xDF then
        (case bs of
           b1 # r \<Rightarrow>
             if is_cont b1
             then map_option ((#) ((unat b0 - 0xC0) * 64 + cont_bits b1)) (utf8_decode r)
             else None
         | _ \<Rightarrow> None)
      else if 0xE0 \<le> unat b0 \<and> unat b0 \<le> 0xEF then
        (case bs of
           b1 # b2 # r \<Rightarrow>
             if second_ok3 (unat b0) b1 \<and> is_cont b2
             then map_option
                    ((#) ((unat b0 - 0xE0) * 4096 + cont_bits b1 * 64 + cont_bits b2))
                    (utf8_decode r)
             else None
         | _ \<Rightarrow> None)
      else if 0xF0 \<le> unat b0 \<and> unat b0 \<le> 0xF4 then
        (case bs of
           b1 # b2 # b3 # r \<Rightarrow>
             if second_ok4 (unat b0) b1 \<and> is_cont b2 \<and> is_cont b3
             then map_option
                    ((#) ((unat b0 - 0xF0) * 262144 + cont_bits b1 * 4096
                          + cont_bits b2 * 64 + cont_bits b3))
                    (utf8_decode r)
             else None
         | _ \<Rightarrow> None)
      else None)"

text \<open>
  \<^verbatim>\<open>str.encode("utf-8")\<close>: \<open>None\<close> stands for \<^verbatim>\<open>UnicodeEncodeError\<close> (a
  surrogate code point).
\<close>

definition utf8_encode_char :: "nat \<Rightarrow> byte list option" where
  "utf8_encode_char c =
     (if c < 0x80 then Some [of_nat c]
      else if c < 0x800 then Some [of_nat (0xC0 + c div 64), of_nat (0x80 + c mod 64)]
      else if 0xD800 \<le> c \<and> c \<le> 0xDFFF then None
      else if c < 0x10000 then
        Some [of_nat (0xE0 + c div 4096), of_nat (0x80 + (c div 64) mod 64),
              of_nat (0x80 + c mod 64)]
      else if c < 0x110000 then
        Some [of_nat (0xF0 + c div 262144), of_nat (0x80 + (c div 4096) mod 64),
              of_nat (0x80 + (c div 64) mod 64), of_nat (0x80 + c mod 64)]
      else None)"

fun utf8_encode :: "str \<Rightarrow> byte list option" where
  "utf8_encode [] = Some []"
| "utf8_encode (c # cs) =
     (case utf8_encode_char c of
        None \<Rightarrow> None
      | Some bs \<Rightarrow> map_option ((@) bs) (utf8_encode cs))"

subsection \<open>UTF-8 with signature, ASCII\<close>

fun startswith :: "'a list \<Rightarrow> 'a list \<Rightarrow> bool" where
  \<comment> \<open>\<^verbatim>\<open>data.startswith(prefix)\<close>\<close>
  "startswith xs [] = True"
| "startswith [] (p # ps) = False"
| "startswith (x # xs) (p # ps) = (x = p \<and> startswith xs ps)"

definition utf8_bom :: "byte list" where
  "utf8_bom = [0xEF, 0xBB, 0xBF]"

definition utf8_sig_decode :: "byte list \<Rightarrow> str option" where
  \<comment> \<open>\<^verbatim>\<open>bytes.decode("utf-8-sig")\<close>: one leading signature, if any, is dropped\<close>
  "utf8_sig_decode data =
     utf8_decode (if startswith data utf8_bom then drop 3 data else data)"

definition ascii_decode :: "byte list \<Rightarrow> str option" where
  \<comment> \<open>\<^verbatim>\<open>bytes.decode("ascii")\<close>\<close>
  "ascii_decode data =
     (if list_all (\<lambda>b. unat b < 0x80) data then Some (map unat data) else None)"

definition ascii_encode :: "str \<Rightarrow> byte list option" where
  \<comment> \<open>\<^verbatim>\<open>str.encode("ascii")\<close>\<close>
  "ascii_encode t =
     (if list_all (\<lambda>c. c < 0x80) t then Some (map of_nat t) else None)"

subsection \<open>CP1252\<close>

text \<open>
  Python's \<^verbatim>\<open>cp1252\<close> codec is a character map. Bytes \<^verbatim>\<open>00\<close> to \<^verbatim>\<open>7F\<close> and
  \<^verbatim>\<open>A0\<close> to \<^verbatim>\<open>FF\<close> map to the code point of the same number; the table below
  is the part for \<^verbatim>\<open>80\<close> to \<^verbatim>\<open>9F\<close>, where the codec leaves five bytes
  undefined. The encoder is the inverse of the table.
\<close>

definition cp1252_high :: "nat option list" where
  "cp1252_high =
     [Some 0x20AC, None,        Some 0x201A, Some 0x0192,
      Some 0x201E, Some 0x2026, Some 0x2020, Some 0x2021,
      Some 0x02C6, Some 0x2030, Some 0x0160, Some 0x2039,
      Some 0x0152, None,        Some 0x017D, None,
      None,        Some 0x2018, Some 0x2019, Some 0x201C,
      Some 0x201D, Some 0x2022, Some 0x2013, Some 0x2014,
      Some 0x02DC, Some 0x2122, Some 0x0161, Some 0x203A,
      Some 0x0153, None,        Some 0x017E, Some 0x0178]"

definition cp1252_decode_byte :: "byte \<Rightarrow> nat option" where
  "cp1252_decode_byte b =
     (if unat b < 0x80 \<or> 0xA0 \<le> unat b then Some (unat b)
      else cp1252_high ! (unat b - 0x80))"

fun cp1252_decode :: "byte list \<Rightarrow> str option" where
  \<comment> \<open>\<^verbatim>\<open>bytes.decode("cp1252")\<close>; \<open>None\<close> is \<^verbatim>\<open>UnicodeDecodeError\<close>\<close>
  "cp1252_decode [] = Some []"
| "cp1252_decode (b # bs) =
     (case cp1252_decode_byte b of
        None \<Rightarrow> None
      | Some c \<Rightarrow> map_option ((#) c) (cp1252_decode bs))"

fun index_of :: "'a \<Rightarrow> 'a list \<Rightarrow> nat option" where
  "index_of x [] = None"
| "index_of x (y # ys) = (if x = y then Some 0 else map_option Suc (index_of x ys))"

definition cp1252_encode_char :: "nat \<Rightarrow> byte option" where
  "cp1252_encode_char c =
     (if c < 0x80 \<or> (0xA0 \<le> c \<and> c < 0x100) then Some (of_nat c)
      else map_option (\<lambda>i. of_nat (0x80 + i)) (index_of (Some c) cp1252_high))"

fun cp1252_encode :: "str \<Rightarrow> byte list option" where
  \<comment> \<open>\<^verbatim>\<open>str.encode("cp1252")\<close>; \<open>None\<close> is \<^verbatim>\<open>UnicodeEncodeError\<close>\<close>
  "cp1252_encode [] = Some []"
| "cp1252_encode (c # cs) =
     (case cp1252_encode_char c of
        None \<Rightarrow> None
      | Some b \<Rightarrow> map_option ((#) b) (cp1252_encode cs))"

subsection \<open>UTF-16 with byte-order mark\<close>

text \<open>
  \<^verbatim>\<open>bytes.decode("utf-16")\<close>: a leading \<^verbatim>\<open>FF FE\<close> or \<^verbatim>\<open>FE FF\<close> selects the byte
  order and is consumed; without one the codec takes the machine's order, little
  endian here. An odd number of bytes, a lone surrogate and a high surrogate
  with no low surrogate after it are decode errors.
\<close>

fun utf16_units :: "bool \<Rightarrow> byte list \<Rightarrow> nat list option" where
  "utf16_units le [] = Some []"
| "utf16_units le [a] = None"
| "utf16_units le (a # b # r) =
     map_option ((#) (if le then unat a + 256 * unat b else 256 * unat a + unat b))
       (utf16_units le r)"

fun utf16_combine :: "nat list \<Rightarrow> str option" where
  "utf16_combine [] = Some []"
| "utf16_combine (u # us) =
     (if u < 0xD800 \<or> 0xDFFF < u then map_option ((#) u) (utf16_combine us)
      else if u \<le> 0xDBFF then
        (case us of
           [] \<Rightarrow> None
         | v # r \<Rightarrow>
             if 0xDC00 \<le> v \<and> v \<le> 0xDFFF
             then map_option ((#) (0x10000 + (u - 0xD800) * 1024 + (v - 0xDC00)))
                    (utf16_combine r)
             else None)
      else None)"

definition utf16_decode :: "byte list \<Rightarrow> str option" where
  "utf16_decode data =
     (case (if startswith data [0xFF, 0xFE] then utf16_units True (drop 2 data)
            else if startswith data [0xFE, 0xFF] then utf16_units False (drop 2 data)
            else utf16_units True data) of
        None \<Rightarrow> None
      | Some us \<Rightarrow> utf16_combine us)"

section \<open>Classification\<close>

text \<open>
  \<^verbatim>\<open>_classify_bytes\<close> is the same function, line for line, in the three
  scripts.
\<close>

definition classify_bytes :: "byte list \<Rightarrow> label \<times> byte list" where
  "classify_bytes data =
     (if startswith data [0xEF, 0xBB, 0xBF] then
        (case utf8_decode (drop 3 data) of
           Some _ \<Rightarrow> (Utf8Bom, drop 3 data)
         | None \<Rightarrow> (Utf8BomInvalid, drop 3 data))
      else if startswith data [0xFF, 0xFE] then (Utf16Le, data)
      else if startswith data [0xFE, 0xFF] then (Utf16Be, data)
      else if 0 \<in> set data then (Binary, data)
      else (case utf8_decode data of
              Some _ \<Rightarrow> (Utf8, data)
            | None \<Rightarrow> (AnsiCp1252, data)))"

text \<open>
  \<^verbatim>\<open>classify\<close> of \<^verbatim>\<open>fix_access_mojibake.py\<close> and of
  \<^verbatim>\<open>normalize_access_module_encoding.py\<close> (the same function in both).
\<close>

definition classify :: "byte list \<Rightarrow> label" where
  "classify data =
     (case classify_bytes data of
        (label, payload) \<Rightarrow>
          if label \<in> {Utf8, AnsiCp1252} \<and> \<not> list_ex (\<lambda>b. 0x80 \<le> unat b) payload
          then AsciiOnly
          else label)"

text \<open>
  \<^verbatim>\<open>classify_file\<close> of \<^verbatim>\<open>check_access_module_encoding.py\<close>, on the bytes read
  from the path: label, size, the non-ASCII flag and the constant \<^verbatim>\<open>True\<close>.
\<close>

definition classify_file :: "byte list \<Rightarrow> label \<times> nat \<times> bool \<times> bool" where
  "classify_file data =
     (case classify_bytes data of
        (label, payload) \<Rightarrow>
          (let non_ascii = list_ex (\<lambda>b. 0x80 \<le> unat b) payload
           in if \<not> non_ascii then (AsciiOnly, length data, False, True)
              else (label, length data, non_ascii, True)))"

section \<open>Decoding and encoding by label\<close>

definition raise_decode :: "str option \<Rightarrow> py_error + str option" where
  \<comment> \<open>a codec's failure is the exception \<^verbatim>\<open>UnicodeDecodeError\<close>\<close>
  "raise_decode r = (case r of None \<Rightarrow> Inl UnicodeDecodeError | Some t \<Rightarrow> Inr (Some t))"

definition raise_encode :: "byte list option \<Rightarrow> py_error + byte list" where
  "raise_encode r = (case r of None \<Rightarrow> Inl UnicodeEncodeError | Some bs \<Rightarrow> Inr bs)"

text \<open>
  \<^verbatim>\<open>decode_bytes\<close> (the same function in the fixer and the normalizer);
  \<open>Inr None\<close> is the Python result \<^verbatim>\<open>None\<close>.
\<close>

definition decode_bytes :: "byte list \<Rightarrow> label \<Rightarrow> py_error + str option" where
  "decode_bytes data label =
     (if label = Utf8 then raise_decode (utf8_decode data)
      else if label = Utf8Bom then raise_decode (utf8_sig_decode data)
      else if label = AsciiOnly then raise_decode (ascii_decode data)
      else if label = AnsiCp1252 then raise_decode (cp1252_decode data)
      else if label \<in> {Utf16Le, Utf16Be} then raise_decode (utf16_decode data)
      else Inr None)"

text \<open>\<^verbatim>\<open>encode_text\<close> of \<^verbatim>\<open>fix_access_mojibake.py\<close>.\<close>

definition encode_text :: "str \<Rightarrow> label \<Rightarrow> py_error + byte list" where
  "encode_text t label =
     (if label = AnsiCp1252 then raise_encode (cp1252_encode t)
      else if label = AsciiOnly then raise_encode (ascii_encode t)
      else raise_encode (utf8_encode t))"

section \<open>Python string operations\<close>

definition ascii :: "string \<Rightarrow> str" where
  \<comment> \<open>the code points of an ASCII literal\<close>
  "ascii s = map of_char s"

text \<open>
  \<^verbatim>\<open>text.count(sub)\<close>: the occurrences of \<open>sub\<close> found from left to right,
  each search starting after the previous match; the empty string occurs
  \<^verbatim>\<open>len(text) + 1\<close> times.
\<close>

function count_from :: "str \<Rightarrow> str \<Rightarrow> nat" where
  "count_from sub [] = 0"
| "count_from sub (c # cs) =
     (if sub \<noteq> [] \<and> startswith (c # cs) sub
      then Suc (count_from sub (drop (length sub - 1) cs))
      else count_from sub cs)"
  by pat_completeness auto
termination
  by (relation "measure (\<lambda>(sub, t). length t)") auto

definition str_count :: "str \<Rightarrow> str \<Rightarrow> nat" where
  "str_count t sub = (if sub = [] then length t + 1 else count_from sub t)"

text \<open>
  \<^verbatim>\<open>text.replace(old, new)\<close>: the same left-to-right search; an empty \<open>old\<close>
  puts \<open>new\<close> before every character and at the end.
\<close>

function replace_from :: "str \<Rightarrow> str \<Rightarrow> str \<Rightarrow> str" where
  "replace_from old new [] = []"
| "replace_from old new (c # cs) =
     (if old \<noteq> [] \<and> startswith (c # cs) old
      then new @ replace_from old new (drop (length old - 1) cs)
      else c # replace_from old new cs)"
  by pat_completeness auto
termination
  by (relation "measure (\<lambda>(old, new, t). length t)") auto

definition str_replace :: "str \<Rightarrow> str \<Rightarrow> str \<Rightarrow> str" where
  "str_replace t old new =
     (if old = [] then new @ concat (map (\<lambda>c. c # new) t) else replace_from old new t)"

text \<open>
  \<^verbatim>\<open>text.splitlines(keepends=True)\<close>: a line ends after \<^verbatim>\<open>\r\n\<close>, or after one
  of the line boundaries of \<^verbatim>\<open>str\<close>; a last line without boundary is kept, an
  empty one is not.
\<close>

definition is_linebreak :: "nat \<Rightarrow> bool" where
  "is_linebreak c \<longleftrightarrow>
     c \<in> {0x0A, 0x0B, 0x0C, 0x0D, 0x1C, 0x1D, 0x1E, 0x85, 0x2028, 0x2029}"

fun splitlines_from :: "str \<Rightarrow> str \<Rightarrow> str list" where
  \<comment> \<open>\<open>cur\<close> is the line read so far\<close>
  "splitlines_from cur [] = (if cur = [] then [] else [cur])"
| "splitlines_from cur (c # cs) =
     (if c = 0x0D then
        (case cs of
           [] \<Rightarrow> [cur @ [c] ]
         | d # ds \<Rightarrow>
             if d = 0x0A then (cur @ [c, d]) # splitlines_from [] ds
             else (cur @ [c]) # splitlines_from [] (d # ds))
      else if is_linebreak c then (cur @ [c]) # splitlines_from [] cs
      else splitlines_from (cur @ [c]) cs)"

definition splitlines :: "str \<Rightarrow> str list" where
  "splitlines t = splitlines_from [] t"

section \<open>Mojibake score and repair (\<^verbatim>\<open>fix_access_mojibake.py\<close>)\<close>

definition SUSPICIOUS_TOKENS :: "str list" where
  "SUSPICIOUS_TOKENS = [ [0x00C3], [0x00C2], [0x00E2, 0x20AC], [0xFFFD] ]"

definition mojibake_score :: "str \<Rightarrow> nat" where
  "mojibake_score t = sum_list (map (str_count t) SUSPICIOUS_TOKENS)"

definition cp1252_to_utf8 :: "str \<Rightarrow> str option" where
  \<comment> \<open>\<^verbatim>\<open>text.encode("cp1252").decode("utf-8")\<close> under the \<^verbatim>\<open>try\<close>: \<open>None\<close> when
      either \<^verbatim>\<open>UnicodeEncodeError\<close> or \<^verbatim>\<open>UnicodeDecodeError\<close> is caught\<close>
  "cp1252_to_utf8 t = (case cp1252_encode t of None \<Rightarrow> None | Some bs \<Rightarrow> utf8_decode bs)"

fun repair_lines :: "str list \<Rightarrow> str list \<Rightarrow> bool \<Rightarrow> str list \<times> bool" where
  \<comment> \<open>the \<^verbatim>\<open>for line in lines\<close> loop, with its two variables\<close>
  "repair_lines [] new_lines changed = (new_lines, changed)"
| "repair_lines (line # lines) new_lines changed =
     (case cp1252_to_utf8 line of
        None \<Rightarrow> repair_lines lines (new_lines @ [line]) changed
      | Some repaired_line \<Rightarrow>
          if mojibake_score repaired_line < mojibake_score line
          then repair_lines lines (new_lines @ [repaired_line]) True
          else repair_lines lines (new_lines @ [line]) changed)"

definition fix_utf8_in_cp1252 :: "str \<Rightarrow> str \<times> bool" where
  "fix_utf8_in_cp1252 t =
     (case cp1252_to_utf8 t of
        Some repaired \<Rightarrow>
          if mojibake_score repaired < mojibake_score t then (repaired, True)
          else (t, False)
      | None \<Rightarrow>
          (case repair_lines (splitlines t) [] False of
             (new_lines, changed) \<Rightarrow>
               if \<not> changed then (t, False)
               else if mojibake_score (concat new_lines) < mojibake_score t
               then (concat new_lines, True)
               else (t, False)))"

subsection \<open>The substitution map\<close>

text \<open>
  A Python \<^verbatim>\<open>dict\<close> keeps its keys in insertion order: an association list
  with distinct keys. Assigning to a key that is present changes the value in
  place; a new key goes to the end.
\<close>

type_synonym dict = "(str \<times> str) list"

fun dict_set :: "dict \<Rightarrow> str \<Rightarrow> str \<Rightarrow> dict" where
  "dict_set [] k v = [(k, v)]"
| "dict_set ((k', v') # d) k v =
     (if k' = k then (k', v) # d else (k', v') # dict_set d k v)"

definition dict_update :: "dict \<Rightarrow> dict \<Rightarrow> dict" where
  \<comment> \<open>\<^verbatim>\<open>mapping.update(other)\<close>\<close>
  "dict_update d other = foldl (\<lambda>m (k, v). dict_set m k v) d other"

definition SPANISH_DEFAULTS :: dict where
  "SPANISH_DEFAULTS =
     [
      (ascii ''m'' @ [0xFFFD] @ ascii ''todo'', ascii ''m'' @ [0x00E9] @ ascii ''todo''),
      (ascii ''S'' @ [0xFFFD], ascii ''S'' @ [0x00ED]),
      (ascii ''ra'' @ [0xFFFD] @ ascii ''z'', ascii ''ra'' @ [0x00ED] @ ascii ''z''),
      (ascii ''edici'' @ [0xFFFD] @ ascii ''n'', ascii ''edici'' @ [0x00F3] @ ascii ''n''),
      (ascii ''p_A'' @ [0xFFFD] @ ascii ''o'', ascii ''p_A'' @ [0x00F1] @ ascii ''o''),
      (ascii ''par'' @ [0xFFFD] @ ascii ''metro'', ascii ''par'' @ [0x00E1] @ ascii ''metro''),
      (ascii ''Prop'' @ [0xFFFD] @ ascii ''sito'', ascii ''Prop'' @ [0x00F3] @ ascii ''sito''),
      (ascii ''Par'' @ [0xFFFD] @ ascii ''metros'', ascii ''Par'' @ [0x00E1] @ ascii ''metros''),
      (ascii ''seg'' @ [0xFFFD] @ ascii ''n'', ascii ''seg'' @ [0x00FA] @ ascii ''n''),
      (ascii ''jer'' @ [0xFFFD] @ ascii ''rquico'', ascii ''jer'' @ [0x00E1] @ ascii ''rquico''),
      (ascii ''L'' @ [0xFFFD] @ ascii ''gica'', ascii ''L'' @ [0x00F3] @ ascii ''gica''),
      (ascii ''M'' @ [0xFFFD] @ ascii ''xDeIDEdicion'', ascii ''M'' @ [0x00E1] @ ascii ''xDeIDEdicion''),
      (ascii ''conexi'' @ [0xFFFD] @ ascii ''n'', ascii ''conexi'' @ [0x00F3] @ ascii ''n''),
      (ascii ''Validaci'' @ [0xFFFD] @ ascii ''n'', ascii ''Validaci'' @ [0x00F3] @ ascii ''n''),
      (ascii ''l'' @ [0xFFFD] @ ascii ''gica'', ascii ''l'' @ [0x00F3] @ ascii ''gica''),
      (ascii ''publicaci'' @ [0xFFFD] @ ascii ''n'', ascii ''publicaci'' @ [0x00F3] @ ascii ''n''),
      ([0xFFFD] @ ascii ''Desea'', [0x00BF] @ ascii ''Desea''),
      (ascii ''acci'' @ [0xFFFD] @ ascii ''n'', ascii ''acci'' @ [0x00F3] @ ascii ''n''),
      (ascii ''M'' @ [0xFFFD] @ ascii ''nDeIDEdicion'', ascii ''M'' @ [0x00ED] @ ascii ''nDeIDEdicion''),
      (ascii ''jer'' @ [0xFFFD] @ ascii ''rquica'', ascii ''jer'' @ [0x00E1] @ ascii ''rquica''),
      (ascii ''num'' @ [0xFFFD] @ ascii ''rico'', ascii ''num'' @ [0x00E9] @ ascii ''rico''),
      (ascii ''par'' @ [0xFFFD] @ ascii ''metros'', ascii ''par'' @ [0x00E1] @ ascii ''metros''),
      (ascii ''Construcci'' @ [0xFFFD] @ ascii ''n'', ascii ''Construcci'' @ [0x00F3] @ ascii ''n''),
      (ascii ''Ejecuci'' @ [0xFFFD] @ ascii ''n'', ascii ''Ejecuci'' @ [0x00F3] @ ascii ''n''),
      (ascii ''visualizaci'' @ [0xFFFD] @ ascii ''n'', ascii ''visualizaci'' @ [0x00F3] @ ascii ''n''),
      (ascii ''Nemot'' @ [0xFFFD] @ ascii ''cnico'', ascii ''Nemot'' @ [0x00E9] @ ascii ''cnico''),
      (ascii ''validaci'' @ [0xFFFD] @ ascii ''n'', ascii ''validaci'' @ [0x00F3] @ ascii ''n''),
      (ascii ''Telef'' @ [0xFFFD] @ ascii ''nica'', ascii ''Telef'' @ [0x00F3] @ ascii ''nica''),
      ([0xFFFD] @ ascii ''rbol'', [0x00E1] @ ascii ''rbol''),
      (ascii ''S'' @ [0xFFFD] @ ascii ''lo'', ascii ''S'' @ [0x00F3] @ ascii ''lo''),
      (ascii ''a'' @ [0xFFFD] @ ascii ''o'', ascii ''a'' @ [0x00F1] @ ascii ''o''),
      (ascii ''n'' @ [0xFFFD] @ ascii ''mero'', ascii ''n'' @ [0x00FA] @ ascii ''mero''),
      (ascii ''est'' @ [0xFFFD], ascii ''est'' @ [0x00E1]),
      (ascii ''T'' @ [0xFFFD] @ ascii ''CNICA'', ascii ''T'' @ [0x00C9] @ ascii ''CNICA'')]"

definition apply_map :: "str \<Rightarrow> dict \<Rightarrow> str" where
  "apply_map t mapping = foldl (\<lambda>t' (key, val). str_replace t' key val) t mapping"

section \<open>Files\<close>

text \<open>
  A path is the list of its components, as \<^verbatim>\<open>pathlib\<close> keeps it; the file
  system maps a path to a regular file with its bytes, to a directory, or to
  nothing. Permissions and links are not modelled.
\<close>

type_synonym path = "string list"

datatype node = File "byte list" | Dir

type_synonym fs = "path \<Rightarrow> node option"

definition read_bytes :: "fs \<Rightarrow> path \<Rightarrow> py_error + byte list" where
  "read_bytes s p =
     (case s p of
        None \<Rightarrow> Inl FileNotFoundError
      | Some Dir \<Rightarrow> Inl IsADirectoryError
      | Some (File d) \<Rightarrow> Inr d)"

definition write_bytes :: "fs \<Rightarrow> path \<Rightarrow> byte list \<Rightarrow> py_error + fs" where
  "write_bytes s p d =
     (case s p of
        Some Dir \<Rightarrow> Inl IsADirectoryError
      | _ \<Rightarrow> Inr (s(p \<mapsto> File d)))"

definition path_exists :: "fs \<Rightarrow> path \<Rightarrow> bool" where
  "path_exists s p \<longleftrightarrow> s p \<noteq> None"

definition is_file :: "fs \<Rightarrow> path \<Rightarrow> bool" where
  "is_file s p \<longleftrightarrow> (case s p of Some (File d) \<Rightarrow> True | _ \<Rightarrow> False)"

definition st_size :: "fs \<Rightarrow> path \<Rightarrow> nat" where
  "st_size s p = (case s p of Some (File d) \<Rightarrow> length d | _ \<Rightarrow> 0)"

definition path_name :: "path \<Rightarrow> string" where
  \<comment> \<open>\<^verbatim>\<open>path.name\<close>: the last component, empty when there is none\<close>
  "path_name p = (if p = [] then [] else last p)"

definition with_name :: "path \<Rightarrow> string \<Rightarrow> py_error + path" where
  \<comment> \<open>\<^verbatim>\<open>path.with_name(name)\<close>: \<^verbatim>\<open>ValueError\<close> when the path has no name or the
      new name is empty, is a dot or holds a separator\<close>
  "with_name p n =
     (if path_name p = [] then Inl ValueError
      else if n = [] \<or> n = ''.'' \<or> CHR ''/'' \<in> set n then Inl ValueError
      else Inr (butlast p @ [n]))"

section \<open>The normalizer (\<^verbatim>\<open>normalize_access_module_encoding.py\<close>)\<close>

text \<open>
  \<^verbatim>\<open>normalize_file(path, dry_run, backup, backup_ext)\<close>. The result is what the
  call returns, or the exception it raises, with the file system it leaves.
\<close>

definition normalize_file ::
  "fs \<Rightarrow> path \<Rightarrow> bool \<Rightarrow> bool \<Rightarrow> string \<Rightarrow> (py_error + label \<times> action) \<times> fs" where
  "normalize_file s path dry_run backup backup_ext =
     (case read_bytes s path of
        Inl e \<Rightarrow> (Inl e, s)
      | Inr data \<Rightarrow>
          (let label = classify data in
           if label \<in> {Binary, Utf8BomInvalid} then (Inr (label, Skip), s)
           else
             (case decode_bytes data label of
                Inl e \<Rightarrow>
                  if e = UnicodeDecodeError then (Inr (label, DecodeError), s)
                  else (Inl e, s)
              | Inr None \<Rightarrow> (Inr (label, Skip), s)
              | Inr (Some t) \<Rightarrow>
                  (case raise_encode (utf8_encode t) of
                     Inl e \<Rightarrow> (Inl e, s)
                   | Inr new_bytes \<Rightarrow>
                       if new_bytes = data then (Inr (label, Ok), s)
                       else if dry_run then (Inr (label, DryRun), s)
                       else if backup then
                         (case with_name path (path_name path @ backup_ext) of
                            Inl e \<Rightarrow> (Inl e, s)
                          | Inr backup_path \<Rightarrow>
                              if path_exists s backup_path
                              then (Inr (label, BackupExists), s)
                              else
                                (case write_bytes s backup_path data of
                                   Inl e \<Rightarrow> (Inl e, s)
                                 | Inr s1 \<Rightarrow>
                                     (case write_bytes s1 path new_bytes of
                                        Inl e \<Rightarrow> (Inl e, s1)
                                      | Inr s2 \<Rightarrow> (Inr (label, Write), s2))))
                       else
                         (case write_bytes s path new_bytes of
                            Inl e \<Rightarrow> (Inl e, s)
                          | Inr s2 \<Rightarrow> (Inr (label, Write), s2))))))"

text \<open>
  The options of the normalizer's \<^verbatim>\<open>main\<close> that reach a file, with the values
  \<^verbatim>\<open>argparse\<close> gives them when the command line does not name them.
\<close>

record normalizer_args =
  n_dry_run :: bool        \<comment> \<open>\<^verbatim>\<open>--dry-run\<close>, \<^verbatim>\<open>store_true\<close>\<close>
  n_backup :: bool         \<comment> \<open>\<^verbatim>\<open>--backup\<close>, \<^verbatim>\<open>store_true\<close>\<close>
  n_backup_ext :: string   \<comment> \<open>\<^verbatim>\<open>--backup-ext\<close>, default \<^verbatim>\<open>.bak\<close>\<close>
  n_strict :: bool         \<comment> \<open>\<^verbatim>\<open>--strict\<close>, \<^verbatim>\<open>store_true\<close>\<close>

definition normalizer_defaults :: normalizer_args where
  "normalizer_defaults =
     \<lparr>n_dry_run = False, n_backup = False, n_backup_ext = ''.bak'', n_strict = False\<rparr>"

text \<open>
  The loop of \<^verbatim>\<open>main\<close> over the resolved paths: a path that is no regular
  file is passed over, an exception of \<^verbatim>\<open>normalize_file\<close> becomes the row
  \<^verbatim>\<open>unknown\<close>/\<^verbatim>\<open>error\<close>, and each row records the size of the file after the call.
\<close>

fun normalizer_loop ::
  "fs \<Rightarrow> path list \<Rightarrow> normalizer_args \<Rightarrow> (path \<times> nat \<times> label \<times> action) list \<times> fs" where
  "normalizer_loop s [] args = ([], s)"
| "normalizer_loop s (p # ps) args =
     (if \<not> is_file s p then normalizer_loop s ps args
      else
        (case normalize_file s p (n_dry_run args) (n_backup args) (n_backup_ext args) of
           (r, s1) \<Rightarrow>
             (case normalizer_loop s1 ps args of
                (rows, s2) \<Rightarrow>
                  ((case r of
                      Inl e \<Rightarrow> (p, st_size s1 p, Unknown, Error)
                    | Inr (label, act) \<Rightarrow> (p, st_size s1 p, label, act)) # rows, s2))))"

definition normalizer_main ::
  "fs \<Rightarrow> path list \<Rightarrow> normalizer_args
     \<Rightarrow> nat \<times> (path \<times> nat \<times> label \<times> action) list \<times> fs" where
  \<comment> \<open>exit status, rows of the report, file system; the paths are those given on the
      command line or found by the scan\<close>
  "normalizer_main s paths args =
     (if paths = [] then (2, [], s)
      else
        (case normalizer_loop s paths args of
           (rows, s') \<Rightarrow>
             (let problems =
                    length (filter (\<lambda>(p, n, l, a). a \<in> {Skip, DecodeError, Error}) rows)
              in (if n_strict args \<and> problems \<noteq> 0 then 1 else 0, rows, s'))))"

section \<open>The mojibake fixer (\<^verbatim>\<open>fix_access_mojibake.py\<close>)\<close>

text \<open>
  \<^verbatim>\<open>normalize_file(path, apply, backup, backup_ext, fix_utf8, mapping,
  apply_map_flag)\<close> of the fixer; \<open>mapping\<close> is \<open>None\<close> for Python's \<^verbatim>\<open>None\<close>. The
  value returned is the label, the action and the two scores.
\<close>

definition fix_normalize_file ::
  "fs \<Rightarrow> path \<Rightarrow> bool \<Rightarrow> bool \<Rightarrow> string \<Rightarrow> bool \<Rightarrow> dict option \<Rightarrow> bool
     \<Rightarrow> (py_error + label \<times> action \<times> nat \<times> nat) \<times> fs" where
  "fix_normalize_file s path apply backup backup_ext fix_utf8 mapping apply_map_flag =
     (case read_bytes s path of
        Inl e \<Rightarrow> (Inl e, s)
      | Inr data \<Rightarrow>
          (let label = classify data in
           if label \<in> {Binary, Utf8BomInvalid} then (Inr (label, Skip, 0, 0), s)
           else
             (case decode_bytes data label of
                Inl e \<Rightarrow>
                  if e = UnicodeDecodeError then (Inr (label, DecodeError, 0, 0), s)
                  else (Inl e, s)
              | Inr None \<Rightarrow> (Inr (label, Skip, 0, 0), s)
              | Inr (Some t0) \<Rightarrow>
                  (let before = mojibake_score t0;
                       (t1, changed1) =
                          (if fix_utf8 then fix_utf8_in_cp1252 t0 else (t0, False));
                       (t2, changed) =
                          (case mapping of
                             None \<Rightarrow> (t1, changed1)
                           | Some m \<Rightarrow>
                               if apply_map_flag \<and> m \<noteq> [] \<and> apply_map t1 m \<noteq> t1
                               then (apply_map t1 m, True)
                               else (t1, changed1));
                       after = mojibake_score t2
                   in
                     if \<not> changed then (Inr (label, Ok, before, after), s)
                     else if \<not> apply then (Inr (label, DryRun, before, after), s)
                     else if backup then
                       (case with_name path (path_name path @ backup_ext) of
                          Inl e \<Rightarrow> (Inl e, s)
                        | Inr backup_path \<Rightarrow>
                            if path_exists s backup_path
                            then (Inr (label, BackupExists, before, after), s)
                            else
                              (case write_bytes s backup_path data of
                                 Inl e \<Rightarrow> (Inl e, s)
                               | Inr s1 \<Rightarrow>
                                   (case encode_text t2 label of
                                      Inl e \<Rightarrow> (Inl e, s1)
                                    | Inr out \<Rightarrow>
                                        (case write_bytes s1 path out of
                                           Inl e \<Rightarrow> (Inl e, s1)
                                         | Inr s2 \<Rightarrow>
                                             (Inr (label, Write, before, after), s2)))))
                     else
                       (case encode_text t2 label of
                          Inl e \<Rightarrow> (Inl e, s)
                        | Inr out \<Rightarrow>
                            (case write_bytes s path out of
                               Inl e \<Rightarrow> (Inl e, s)
                             | Inr s2 \<Rightarrow> (Inr (label, Write, before, after), s2)))))))"

text \<open>
  The options of the fixer's \<^verbatim>\<open>main\<close>. \<open>f_map\<close> is the JSON object read from the
  file that \<^verbatim>\<open>--map\<close> names, as the \<^verbatim>\<open>dict\<close> that \<^verbatim>\<open>json.loads\<close> returns, or
  \<open>None\<close> without the option.
\<close>

record fixer_args =
  f_apply :: bool              \<comment> \<open>\<^verbatim>\<open>--apply\<close>, \<^verbatim>\<open>store_true\<close>\<close>
  f_backup :: bool             \<comment> \<open>\<^verbatim>\<open>--backup\<close>, \<^verbatim>\<open>store_true\<close>\<close>
  f_backup_ext :: string       \<comment> \<open>\<^verbatim>\<open>--backup-ext\<close>, default \<^verbatim>\<open>.bak\<close>\<close>
  f_no_fix_utf8 :: bool        \<comment> \<open>\<^verbatim>\<open>--no-fix-utf8\<close>, \<^verbatim>\<open>store_true\<close>\<close>
  f_map :: "dict option"       \<comment> \<open>\<^verbatim>\<open>--map\<close>\<close>
  f_fix_map :: bool            \<comment> \<open>\<^verbatim>\<open>--fix-map\<close>, \<^verbatim>\<open>store_true\<close>\<close>
  f_spanish_defaults :: bool   \<comment> \<open>\<^verbatim>\<open>--spanish-defaults\<close>, \<^verbatim>\<open>store_true\<close>\<close>
  f_strict :: bool             \<comment> \<open>\<^verbatim>\<open>--strict\<close>, \<^verbatim>\<open>store_true\<close>\<close>

definition fixer_defaults :: fixer_args where
  "fixer_defaults =
     \<lparr>f_apply = False, f_backup = False, f_backup_ext = ''.bak'', f_no_fix_utf8 = False,
      f_map = None, f_fix_map = False, f_spanish_defaults = False, f_strict = False\<rparr>"

text \<open>
  The mapping and the flag that \<^verbatim>\<open>main\<close> builds before the loop: the built-in
  table first, the loaded object on top, \<^verbatim>\<open>None\<close> for an empty mapping.
\<close>

definition build_mapping :: "fixer_args \<Rightarrow> dict option \<times> bool" where
  "build_mapping args =
     (let m1 = (if f_spanish_defaults args then dict_update [] SPANISH_DEFAULTS else []);
          flag1 = f_spanish_defaults args;
          m2 = (case f_map args of None \<Rightarrow> m1 | Some ext \<Rightarrow> dict_update m1 ext);
          flag2 = (if f_fix_map args then True else flag1)
      in (if m2 = [] then None else Some m2, flag2))"

fun fixer_loop ::
  "fs \<Rightarrow> path list \<Rightarrow> fixer_args
     \<Rightarrow> (path \<times> nat \<times> label \<times> action \<times> nat \<times> nat) list \<times> fs" where
  "fixer_loop s [] args = ([], s)"
| "fixer_loop s (p # ps) args =
     (if \<not> is_file s p then fixer_loop s ps args
      else
        (case fix_normalize_file s p (f_apply args) (f_backup args) (f_backup_ext args)
                (\<not> f_no_fix_utf8 args) (fst (build_mapping args)) (snd (build_mapping args)) of
           (r, s1) \<Rightarrow>
             (case fixer_loop s1 ps args of
                (rows, s2) \<Rightarrow>
                  ((case r of
                      Inl e \<Rightarrow> (p, st_size s1 p, Unknown, Error, 0, 0)
                    | Inr (label, act, before, after) \<Rightarrow>
                        (p, st_size s1 p, label, act, before, after)) # rows, s2))))"

definition fixer_main ::
  "fs \<Rightarrow> path list \<Rightarrow> fixer_args
     \<Rightarrow> nat \<times> (path \<times> nat \<times> label \<times> action \<times> nat \<times> nat) list \<times> fs" where
  "fixer_main s paths args =
     (if paths = [] then (2, [], s)
      else
        (case fixer_loop s paths args of
           (rows, s') \<Rightarrow>
             (let problems =
                    length (filter (\<lambda>(p, n, l, a, b, c). a \<in> {Skip, DecodeError, Error}) rows)
              in (if f_strict args \<and> problems \<noteq> 0 then 1 else 0, rows, s'))))"

section \<open>Evaluation on concrete inputs\<close>

lemmas codec_defs =
  ascii_def is_cont_def cont_bits_def second_ok3_def second_ok4_def utf8_encode_char_def
  utf8_bom_def utf8_sig_decode_def ascii_decode_def ascii_encode_def
  cp1252_high_def cp1252_decode_byte_def cp1252_encode_char_def utf16_decode_def
  raise_decode_def raise_encode_def decode_bytes_def encode_text_def

lemmas classify_defs = classify_bytes_def classify_def classify_file_def

lemmas repair_defs =
  str_count_def str_replace_def is_linebreak_def splitlines_def SUSPICIOUS_TOKENS_def
  mojibake_score_def cp1252_to_utf8_def fix_utf8_in_cp1252_def

section \<open>The classifier\<close>

lemma classify_bytes_bom:
  "startswith data [0xEF, 0xBB, 0xBF] \<Longrightarrow>
   classify_bytes data =
     (if utf8_decode (drop 3 data) \<noteq> None then Utf8Bom else Utf8BomInvalid, drop 3 data)"
  by (auto simp: classify_bytes_def split: option.splits)

lemma classify_bom:
  "startswith data [0xEF, 0xBB, 0xBF] \<Longrightarrow>
   classify data = (if utf8_decode (drop 3 data) \<noteq> None then Utf8Bom else Utf8BomInvalid)"
  by (simp add: classify_def classify_bytes_bom)

lemma classify_binary:
  assumes "0 \<in> set data" "\<not> startswith data [0xEF, 0xBB, 0xBF]"
    "\<not> startswith data [0xFF, 0xFE]" "\<not> startswith data [0xFE, 0xFF]"
  shows "classify_bytes data = (Binary, data)" and "classify data = Binary"
  using assms by (simp_all add: classify_def classify_bytes_def)

text \<open>
  Claim C4. Bytes that begin with \<^verbatim>\<open>EF BB BF\<close> are to be labelled \<^verbatim>\<open>utf8-bom\<close> or
  \<^verbatim>\<open>utf8-bom-invalid\<close> by every tool. \<^verbatim>\<open>_classify_bytes\<close> and the \<^verbatim>\<open>classify\<close> of
  the fixer and the normalizer do so (\<open>classify_bytes_bom\<close>, \<open>classify_bom\<close>). The
  checker's \<^verbatim>\<open>classify_file\<close> does not guard its ASCII refinement by the label:
  on \<^verbatim>\<open>EF BB BF 68 69\<close> the payload \<^verbatim>\<open>68 69\<close> has no byte from \<^verbatim>\<open>0x80\<close> on, and
  the file is reported as \<^verbatim>\<open>ascii-only\<close>.
\<close>

theorem checker_bom_ascii_only:
  "fst (classify_bytes [0xEF, 0xBB, 0xBF, 0x68, 0x69]) = Utf8Bom \<and>
   classify [0xEF, 0xBB, 0xBF, 0x68, 0x69] = Utf8Bom \<and>
   fst (classify_file [0xEF, 0xBB, 0xBF, 0x68, 0x69]) = AsciiOnly"
  by (simp add: classify_defs)

text \<open>
  Claim C5. Bytes with a \<^verbatim>\<open>00\<close> byte and no byte-order mark are to be labelled
  \<^verbatim>\<open>binary\<close> by every tool, the ASCII refinement leaving that label alone.
  \<^verbatim>\<open>_classify_bytes\<close> and \<^verbatim>\<open>classify\<close> do so (\<open>classify_binary\<close>). The checker's
  \<^verbatim>\<open>classify_file\<close> replaces the label: on \<^verbatim>\<open>61 00 62\<close> it reports \<^verbatim>\<open>ascii-only\<close>.
\<close>

theorem checker_nul_ascii_only:
  "fst (classify_bytes [0x61, 0x00, 0x62]) = Binary \<and>
   classify [0x61, 0x00, 0x62] = Binary \<and>
   fst (classify_file [0x61, 0x00, 0x62]) = AsciiOnly"
  by (simp add: classify_defs)

section \<open>The score gate of the repair\<close>

lemma fix_utf8_in_cp1252_cases:
  "fix_utf8_in_cp1252 t = (t, False) \<or>
   (\<exists>t'. fix_utf8_in_cp1252 t = (t', True) \<and> mojibake_score t' < mojibake_score t)"
  by (auto simp: fix_utf8_in_cp1252_def split: option.splits prod.splits)

lemma fix_utf8_in_cp1252_discard:
  assumes "cp1252_to_utf8 t = None"
    and "\<not> mojibake_score (concat (fst (repair_lines (splitlines t) [] False)))
           < mojibake_score t"
  shows "fix_utf8_in_cp1252 t = (t, False)"
  using assms by (auto simp: fix_utf8_in_cp1252_def split: prod.splits)

lemma count_from_absent: "s \<notin> set t \<Longrightarrow> count_from (s # ss) t = 0"
  by (induction t) auto

lemma ascii_score_zero:
  assumes "list_all (\<lambda>c. c < 0x80) t"
  shows "mojibake_score t = 0"
proof -
  have "\<And>s. 0x80 \<le> s \<Longrightarrow> s \<notin> set t"
    using assms by (auto simp: list_all_iff)
  then show ?thesis
    by (simp add: mojibake_score_def SUSPICIOUS_TOKENS_def str_count_def count_from_absent)
qed

text \<open>
  Claim C2. For every text, \<^verbatim>\<open>fix_utf8_in_cp1252\<close> returns the text itself with
  \<^verbatim>\<open>False\<close>, or a text of strictly lower mojibake score with \<^verbatim>\<open>True\<close>. In the
  line-by-line path (the whole-text round trip failed), lines that reassemble to
  a text whose score is not strictly lower are thrown away and the original
  text is returned.
\<close>

theorem fix_utf8_in_cp1252_score_gate:
  "(fix_utf8_in_cp1252 t = (t, False) \<or>
    (\<exists>t'. fix_utf8_in_cp1252 t = (t', True) \<and> mojibake_score t' < mojibake_score t)) \<and>
   (cp1252_to_utf8 t = None \<and>
    \<not> mojibake_score (concat (fst (repair_lines (splitlines t) [] False)))
        < mojibake_score t
      \<longrightarrow> fix_utf8_in_cp1252 t = (t, False))"
  using fix_utf8_in_cp1252_cases [of t] fix_utf8_in_cp1252_discard [of t] by blast

theorem fix_utf8_in_cp1252_score_gate_witness:
  "cp1252_to_utf8 [0x81, 0x0A, 0x41] = None \<and>
   \<not> mojibake_score (concat (fst (repair_lines (splitlines [0x81, 0x0A, 0x41]) [] False)))
       < mojibake_score [0x81, 0x0A, 0x41] \<and>
   fix_utf8_in_cp1252 [0x81, 0x0A, 0x41] = ([0x81, 0x0A, 0x41], False) \<and>
   fix_utf8_in_cp1252 [0xC3, 0xA9, 0x0A, 0xE9, 0x0A] = ([0xE9, 0x0A, 0xE9, 0x0A], True) \<and>
   mojibake_score [0xE9, 0x0A, 0xE9, 0x0A] < mojibake_score [0xC3, 0xA9, 0x0A, 0xE9, 0x0A]"
proof -
  have h: "cp1252_to_utf8 [0x81, 0x0A, 0x41] = None \<and>
    \<not> mojibake_score (concat (fst (repair_lines (splitlines [0x81, 0x0A, 0x41]) [] False)))
        < mojibake_score [0x81, 0x0A, 0x41]"
    by (simp add: codec_defs repair_defs)
  have g: "fix_utf8_in_cp1252 [0xC3, 0xA9, 0x0A, 0xE9, 0x0A] = ([0xE9, 0x0A, 0xE9, 0x0A], True)"
    by (simp add: codec_defs repair_defs)
  from fix_utf8_in_cp1252_score_gate [of "[0x81, 0x0A, 0x41]"] h
  have "fix_utf8_in_cp1252 [0x81, 0x0A, 0x41] = ([0x81, 0x0A, 0x41], False)"
    by blast
  moreover from fix_utf8_in_cp1252_score_gate [of "[0xC3, 0xA9, 0x0A, 0xE9, 0x0A]"] g
  have "mojibake_score [0xE9, 0x0A, 0xE9, 0x0A] < mojibake_score [0xC3, 0xA9, 0x0A, 0xE9, 0x0A]"
    by simp
  ultimately show ?thesis using h g by blast
qed

text \<open>
  Claim C10. A text of mojibake score 0 is a fixed point of
  \<^verbatim>\<open>fix_utf8_in_cp1252\<close>: it comes back unchanged with \<^verbatim>\<open>False\<close>. Every text of
  ASCII characters only has score 0, so it is such a fixed point.
\<close>

theorem fix_utf8_in_cp1252_clean_fixed_point:
  "(mojibake_score t = 0 \<longrightarrow> fix_utf8_in_cp1252 t = (t, False)) \<and>
   (list_all (\<lambda>c. c < 0x80) t \<longrightarrow>
      mojibake_score t = 0 \<and> fix_utf8_in_cp1252 t = (t, False))"
  using fix_utf8_in_cp1252_cases [of t] ascii_score_zero [of t] by auto

theorem fix_utf8_in_cp1252_clean_fixed_point_witness:
  "mojibake_score (ascii ''caf'' @ [0xE9]) = 0 \<and>
   fix_utf8_in_cp1252 (ascii ''caf'' @ [0xE9]) = (ascii ''caf'' @ [0xE9], False) \<and>
   list_all (\<lambda>c. c < 0x80) (ascii ''Sub Main'') \<and>
   mojibake_score (ascii ''Sub Main'') = 0 \<and>
   fix_utf8_in_cp1252 (ascii ''Sub Main'') = (ascii ''Sub Main'', False)"
proof -
  have h: "mojibake_score (ascii ''caf'' @ [0xE9]) = 0"
    by (simp add: codec_defs repair_defs)
  have g: "list_all (\<lambda>c. c < 0x80) (ascii ''Sub Main'')"
    by (simp add: ascii_def)
  show ?thesis
    using fix_utf8_in_cp1252_clean_fixed_point [of "ascii ''caf'' @ [0xE9]"]
      fix_utf8_in_cp1252_clean_fixed_point [of "ascii ''Sub Main''"] h g
    by blast
qed

section \<open>CP1252 decoding and its inverse\<close>

lemma cp1252_high_undefined:
  assumes "n < 32"
  shows "cp1252_high ! n = None \<longleftrightarrow> n \<in> {1, 13, 15, 16, 29}"
proof -
  have "\<forall>i\<in>{..<32}. cp1252_high ! i = None \<longleftrightarrow> i \<in> {1, 13, 15, 16, 29}"
    by (simp add: cp1252_high_def lessThan_nat_numeral)
  from bspec [OF this, of n] assms show ?thesis by simp
qed

lemma cp1252_high_inverse:
  assumes "n < 32" and "cp1252_high ! n = Some c"
  shows "0x100 \<le> c \<and> index_of (Some c) cp1252_high = Some n"
proof -
  have "\<forall>i\<in>{..<32}. \<forall>c. cp1252_high ! i = Some c \<longrightarrow>
          0x100 \<le> c \<and> index_of (Some c) cp1252_high = Some i"
    by (simp add: cp1252_high_def lessThan_nat_numeral)
  from bspec [OF this, of n] assms show ?thesis by simp
qed

lemma cp1252_decode_byte_None:
  "cp1252_decode_byte b = None \<longleftrightarrow> unat b \<in> {0x81, 0x8D, 0x8F, 0x90, 0x9D}"
proof (cases "unat b < 0x80 \<or> 0xA0 \<le> unat b")
  case True
  then show ?thesis by (auto simp: cp1252_decode_byte_def)
next
  case False
  then have n: "unat b - 0x80 < 32" by arith
  from False have "unat b - 0x80 \<in> {1, 13, 15, 16, 29} \<longleftrightarrow>
      unat b \<in> {0x81, 0x8D, 0x8F, 0x90, 0x9D}"
    by auto
  with False cp1252_high_undefined [OF n] show ?thesis
    by (simp add: cp1252_decode_byte_def)
qed

lemma cp1252_decode_defined:
  "(\<exists>t. cp1252_decode data = Some t) \<longleftrightarrow>
   (\<forall>b\<in>set data. unat b \<notin> {0x81, 0x8D, 0x8F, 0x90, 0x9D})"
proof (induction data)
  case Nil
  show ?case by simp
next
  case (Cons b bs)
  show ?case
  proof (cases "cp1252_decode_byte b")
    case None
    then have "unat b \<in> {0x81, 0x8D, 0x8F, 0x90, 0x9D}"
      using cp1252_decode_byte_None [of b] by blast
    with None show ?thesis by auto
  next
    case (Some c)
    then have "unat b \<notin> {0x81, 0x8D, 0x8F, 0x90, 0x9D}"
      using cp1252_decode_byte_None [of b] by auto
    with Some Cons.IH show ?thesis by auto
  qed
qed

lemma cp1252_encode_decode_byte:
  assumes "cp1252_decode_byte b = Some c"
  shows "cp1252_encode_char c = Some b"
proof (cases "unat b < 0x80 \<or> 0xA0 \<le> unat b")
  case True
  with assms have c: "c = unat b" by (simp add: cp1252_decode_byte_def)
  have "unat b < 0x100" using unsigned_less [of b, where 'a = nat] by simp
  with True c show ?thesis by (auto simp: cp1252_encode_char_def)
next
  case False
  then have n: "unat b - 0x80 < 32" by arith
  from False assms have "cp1252_high ! (unat b - 0x80) = Some c"
    by (simp add: cp1252_decode_byte_def)
  from cp1252_high_inverse [OF n this]
  have "0x100 \<le> c" and "index_of (Some c) cp1252_high = Some (unat b - 0x80)"
    by simp_all
  moreover from False have "0x80 + (unat b - 0x80) = unat b" by arith
  ultimately show ?thesis by (simp add: cp1252_encode_char_def)
qed

lemma cp1252_encode_decode:
  "cp1252_decode data = Some t \<Longrightarrow> cp1252_encode t = Some data"
proof (induction data arbitrary: t)
  case Nil
  then show ?case by simp
next
  case (Cons b bs)
  then show ?case
    by (auto split: option.splits dest: cp1252_encode_decode_byte)
qed

lemma decode_error_reported:
  assumes "s p = Some (File data)" and "classify data = AnsiCp1252"
    and "\<exists>b\<in>set data. unat b \<in> {0x81, 0x8D, 0x8F, 0x90, 0x9D}"
  shows "normalize_file s p dry_run backup ext = (Inr (AnsiCp1252, DecodeError), s)"
    and "fix_normalize_file s p apply backup ext fix_utf8 m flag
           = (Inr (AnsiCp1252, DecodeError, 0, 0), s)"
proof -
  from assms(3) cp1252_decode_defined [of data] have "cp1252_decode data = None"
    by (cases "cp1252_decode data") auto
  then have d: "decode_bytes data AnsiCp1252 = Inl UnicodeDecodeError"
    by (simp add: decode_bytes_def raise_decode_def)
  show "normalize_file s p dry_run backup ext = (Inr (AnsiCp1252, DecodeError), s)"
    using assms(1,2) d by (simp add: normalize_file_def read_bytes_def)
  show "fix_normalize_file s p apply backup ext fix_utf8 m flag
           = (Inr (AnsiCp1252, DecodeError, 0, 0), s)"
    using assms(1,2) d by (simp add: fix_normalize_file_def read_bytes_def)
qed

text \<open>
  Claim C3, as stated: decoding a payload labelled \<^verbatim>\<open>ansi-cp1252\<close> never fails.
  The one-byte file \<^verbatim>\<open>81\<close> is labelled \<^verbatim>\<open>ansi-cp1252\<close>, and \<^verbatim>\<open>decode_bytes\<close>
  raises \<^verbatim>\<open>UnicodeDecodeError\<close> on it.
\<close>

theorem cp1252_decode_raises:
  "classify [0x81] = AnsiCp1252 \<and> decode_bytes [0x81] AnsiCp1252 = Inl UnicodeDecodeError"
  by (simp add: classify_defs codec_defs)

text \<open>
  Claim C3, amended. \<^verbatim>\<open>decode_bytes\<close> with the label \<^verbatim>\<open>ansi-cp1252\<close> produces a
  text when none of the bytes is \<^verbatim>\<open>81\<close>, \<^verbatim>\<open>8D\<close>, \<^verbatim>\<open>8F\<close>, \<^verbatim>\<open>90\<close> or \<^verbatim>\<open>9D\<close>;
  when one of them occurs it raises \<^verbatim>\<open>UnicodeDecodeError\<close>, which the
  \<^verbatim>\<open>normalize_file\<close> of both drivers catches and reports as \<^verbatim>\<open>decode-error\<close>,
  the file system unchanged.
\<close>

theorem decode_bytes_cp1252_defined:
  "((\<forall>b\<in>set data. unat b \<notin> {0x81, 0x8D, 0x8F, 0x90, 0x9D}) \<longrightarrow>
      (\<exists>t. decode_bytes data AnsiCp1252 = Inr (Some t))) \<and>
   ((\<exists>b\<in>set data. unat b \<in> {0x81, 0x8D, 0x8F, 0x90, 0x9D}) \<longrightarrow>
      decode_bytes data AnsiCp1252 = Inl UnicodeDecodeError \<and>
      (s p = Some (File data) \<and> classify data = AnsiCp1252 \<longrightarrow>
         normalize_file s p dry_run backup ext = (Inr (AnsiCp1252, DecodeError), s) \<and>
         fix_normalize_file s p apply backup ext fix_utf8 m flag
           = (Inr (AnsiCp1252, DecodeError, 0, 0), s)))"
proof (intro conjI impI)
  assume "\<forall>b\<in>set data. unat b \<notin> {0x81, 0x8D, 0x8F, 0x90, 0x9D}"
  with cp1252_decode_defined [of data] obtain t where "cp1252_decode data = Some t"
    by blast
  then show "\<exists>t. decode_bytes data AnsiCp1252 = Inr (Some t)"
    by (simp add: decode_bytes_def raise_decode_def)
next
  assume "\<exists>b\<in>set data. unat b \<in> {0x81, 0x8D, 0x8F, 0x90, 0x9D}"
  with cp1252_decode_defined [of data] have "cp1252_decode data = None"
    by (cases "cp1252_decode data") auto
  then show "decode_bytes data AnsiCp1252 = Inl UnicodeDecodeError"
    by (simp add: decode_bytes_def raise_decode_def)
next
  assume a: "\<exists>b\<in>set data. unat b \<in> {0x81, 0x8D, 0x8F, 0x90, 0x9D}"
    and b: "s p = Some (File data) \<and> classify data = AnsiCp1252"
  from decode_error_reported(1) [of s p data] a b
  show "normalize_file s p dry_run backup ext = (Inr (AnsiCp1252, DecodeError), s)"
    by blast
  from decode_error_reported(2) [of s p data] a b
  show "fix_normalize_file s p apply backup ext fix_utf8 m flag
           = (Inr (AnsiCp1252, DecodeError, 0, 0), s)"
    by blast
qed

theorem decode_bytes_cp1252_defined_witness:
  "list_all (\<lambda>b. unat b \<notin> {0x81, 0x8D, 0x8F, 0x90, 0x9D}) [0x41, 0x80, 0xE9 :: byte] \<and>
   (\<exists>t. decode_bytes [0x41, 0x80, 0xE9] AnsiCp1252 = Inr (Some t)) \<and>
   (\<exists>b\<in>set [0x41, 0x9D :: byte]. unat b \<in> {0x81, 0x8D, 0x8F, 0x90, 0x9D}) \<and>
   decode_bytes [0x41, 0x9D] AnsiCp1252 = Inl UnicodeDecodeError \<and>
   (Map.empty([''m.bas''] \<mapsto> File [0x41, 0x9D])) [''m.bas''] = Some (File [0x41, 0x9D]) \<and>
   classify [0x41, 0x9D] = AnsiCp1252 \<and>
   normalize_file (Map.empty([''m.bas''] \<mapsto> File [0x41, 0x9D])) [''m.bas''] False False ''.bak''
     = (Inr (AnsiCp1252, DecodeError), Map.empty([''m.bas''] \<mapsto> File [0x41, 0x9D])) \<and>
   fix_normalize_file (Map.empty([''m.bas''] \<mapsto> File [0x41, 0x9D])) [''m.bas'']
       True False ''.bak'' True None False
     = (Inr (AnsiCp1252, DecodeError, 0, 0), Map.empty([''m.bas''] \<mapsto> File [0x41, 0x9D]))"
proof -
  have a: "\<forall>b\<in>set [0x41, 0x80, 0xE9 :: byte]. unat b \<notin> {0x81, 0x8D, 0x8F, 0x90, 0x9D}"
    by simp
  have b: "\<exists>b\<in>set [0x41, 0x9D :: byte]. unat b \<in> {0x81, 0x8D, 0x8F, 0x90, 0x9D}"
    by simp
  have c: "classify [0x41, 0x9D] = AnsiCp1252"
    by (simp add: classify_defs codec_defs)
  have f: "(Map.empty([''m.bas''] \<mapsto> File [0x41, 0x9D])) [''m.bas''] = Some (File [0x41, 0x9D])"
    by simp
  show ?thesis
    using decode_bytes_cp1252_defined [of "[0x41, 0x80, 0xE9]"] a
      decode_bytes_cp1252_defined [of "[0x41, 0x9D]"
        "Map.empty([''m.bas''] \<mapsto> File [0x41, 0x9D])" "[''m.bas'']" False False "''.bak''"
        True True None False] b c f
    unfolding list_all_iff by blast
qed

text \<open>
  Claim C8, as stated: every byte sequence classified \<^verbatim>\<open>ansi-cp1252\<close> decodes
  and re-encodes to itself. The file \<^verbatim>\<open>41 90\<close> is classified \<^verbatim>\<open>ansi-cp1252\<close>
  and has no decoded text to encode: the decoder raises.
\<close>

theorem cp1252_round_trip_fails:
  "classify [0x41, 0x90] = AnsiCp1252 \<and>
   decode_bytes [0x41, 0x90] AnsiCp1252 = Inl UnicodeDecodeError"
  by (simp add: classify_defs codec_defs)

text \<open>
  Claim C8, amended. For every byte sequence classified \<^verbatim>\<open>ansi-cp1252\<close> with
  none of the bytes \<^verbatim>\<open>81\<close>, \<^verbatim>\<open>8D\<close>, \<^verbatim>\<open>8F\<close>, \<^verbatim>\<open>90\<close>, \<^verbatim>\<open>9D\<close>, \<^verbatim>\<open>decode_bytes\<close>
  returns a text and \<^verbatim>\<open>encode_text\<close> with the same label gives the original
  bytes back.
\<close>

theorem cp1252_round_trip:
  assumes "classify data = AnsiCp1252"
    and "\<forall>b\<in>set data. unat b \<notin> {0x81, 0x8D, 0x8F, 0x90, 0x9D}"
  shows "\<exists>t. decode_bytes data AnsiCp1252 = Inr (Some t) \<and>
             encode_text t AnsiCp1252 = Inr data"
proof -
  from assms(2) cp1252_decode_defined [of data] obtain t where t: "cp1252_decode data = Some t"
    by blast
  then have "cp1252_encode t = Some data" by (rule cp1252_encode_decode)
  with t show ?thesis
    by (simp add: decode_bytes_def encode_text_def raise_decode_def raise_encode_def)
qed

theorem cp1252_round_trip_witness:
  "classify [0x41, 0x80, 0xE9] = AnsiCp1252 \<and>
   decode_bytes [0x41, 0x80, 0xE9] AnsiCp1252 = Inr (Some [0x41, 0x20AC, 0xE9]) \<and>
   encode_text [0x41, 0x20AC, 0xE9] AnsiCp1252 = Inr [0x41, 0x80, 0xE9]"
proof -
  have c: "classify [0x41, 0x80, 0xE9] = AnsiCp1252"
    by (simp add: classify_defs codec_defs)
  have u: "\<forall>b\<in>set [0x41, 0x80, 0xE9 :: byte]. unat b \<notin> {0x81, 0x8D, 0x8F, 0x90, 0x9D}"
    by simp
  have d: "decode_bytes [0x41, 0x80, 0xE9] AnsiCp1252 = Inr (Some [0x41, 0x20AC, 0xE9])"
    by (simp add: codec_defs)
  from cp1252_round_trip [OF c u] d c show ?thesis by simp
qed

section \<open>The write policy of the drivers\<close>

lemma normalize_file_dry_run_fs:
  "snd (normalize_file s p True backup ext) = s"
  by (simp add: normalize_file_def Let_def split: sum.splits option.splits)

lemma normalize_file_dry_run_action:
  "case fst (normalize_file s p True backup ext) of
     Inl e \<Rightarrow> True
   | Inr (l, a) \<Rightarrow> a \<in> {Skip, DecodeError, Ok, DryRun}"
  by (simp add: normalize_file_def Let_def split: sum.splits option.splits)

lemma normalize_file_detected:
  "case fst (normalize_file s p False backup ext) of
     Inl e \<Rightarrow> True
   | Inr (l, a) \<Rightarrow> a \<in> {Write, BackupExists} \<longrightarrow>
       fst (normalize_file s p True backup' ext') = Inr (l, DryRun)"
  by (simp add: normalize_file_def Let_def split: sum.splits option.splits)

lemma fix_normalize_file_no_apply_fs:
  "snd (fix_normalize_file s p False backup ext fx m fl) = s"
  by (simp add: fix_normalize_file_def Let_def case_prod_beta split: sum.splits option.splits)

lemma fix_normalize_file_no_apply_action:
  "case fst (fix_normalize_file s p False backup ext fx m fl) of
     Inl e \<Rightarrow> True
   | Inr (l, a, b, c) \<Rightarrow> a \<in> {Skip, DecodeError, Ok, DryRun}"
  by (simp add: fix_normalize_file_def Let_def case_prod_beta split: sum.splits option.splits)

lemma fix_normalize_file_detected:
  "case fst (fix_normalize_file s p True backup ext fx m fl) of
     Inl e \<Rightarrow> True
   | Inr (l, a, b, c) \<Rightarrow> a \<in> {Write, BackupExists} \<longrightarrow>
       fst (fix_normalize_file s p False backup' ext' fx m fl) = Inr (l, DryRun, b, c)"
  by (simp add: fix_normalize_file_def Let_def case_prod_beta split: sum.splits option.splits)

lemma normalizer_loop_dry_run:
  "n_dry_run args \<Longrightarrow> snd (normalizer_loop s ps args) = s"
proof (induction ps arbitrary: s)
  case Nil
  show ?case by simp
next
  case (Cons p ps)
  obtain r s1 where n:
    "normalize_file s p (n_dry_run args) (n_backup args) (n_backup_ext args) = (r, s1)"
    by (cases "normalize_file s p (n_dry_run args) (n_backup args) (n_backup_ext args)")
  with Cons.prems normalize_file_dry_run_fs [of s p "n_backup args" "n_backup_ext args"]
  have s1: "s1 = s" by simp
  obtain rows s2 where l: "normalizer_loop s ps args = (rows, s2)"
    by (cases "normalizer_loop s ps args")
  with Cons.IH [OF Cons.prems, of s] have "s2 = s" by simp
  with n l s1 show ?case by simp
qed

lemma fixer_loop_no_apply:
  "\<not> f_apply args \<Longrightarrow> snd (fixer_loop s ps args) = s"
proof (induction ps arbitrary: s)
  case Nil
  show ?case by simp
next
  case (Cons p ps)
  obtain r s1 where n:
    "fix_normalize_file s p (f_apply args) (f_backup args) (f_backup_ext args)
       (\<not> f_no_fix_utf8 args) (fst (build_mapping args)) (snd (build_mapping args)) = (r, s1)"
    by (cases "fix_normalize_file s p (f_apply args) (f_backup args) (f_backup_ext args)
       (\<not> f_no_fix_utf8 args) (fst (build_mapping args)) (snd (build_mapping args))")
  with Cons.prems
    fix_normalize_file_no_apply_fs [of s p "f_backup args" "f_backup_ext args"
      "\<not> f_no_fix_utf8 args" "fst (build_mapping args)" "snd (build_mapping args)"]
  have s1: "s1 = s" by simp
  obtain rows s2 where l: "fixer_loop s ps args = (rows, s2)"
    by (cases "fixer_loop s ps args")
  with Cons.IH [OF Cons.prems, of s] have "s2 = s" by simp
  with n l s1 show ?case by simp
qed

lemma normalizer_main_dry_run:
  "n_dry_run args \<Longrightarrow> snd (snd (normalizer_main s ps args)) = s"
  using normalizer_loop_dry_run [of args s ps]
  by (auto simp: normalizer_main_def Let_def split: prod.splits)

lemma fixer_main_no_apply:
  "\<not> f_apply args \<Longrightarrow> snd (snd (fixer_main s ps args)) = s"
  using fixer_loop_no_apply [of args s ps]
  by (auto simp: fixer_main_def Let_def split: prod.splits)

lemma normalize_file_backup_exists:
  assumes "with_name p (path_name p @ ext) = Inr bp" and "path_exists s bp"
  shows "case fst (normalize_file s p True backup' ext') of
           Inl e \<Rightarrow> True
         | Inr (l, a) \<Rightarrow> a = DryRun \<longrightarrow>
             normalize_file s p False True ext = (Inr (l, BackupExists), s)"
  using assms
  by (simp add: normalize_file_def Let_def split: sum.splits option.splits)

lemma fix_normalize_file_backup_exists:
  assumes "with_name p (path_name p @ ext) = Inr bp" and "path_exists s bp"
  shows "case fst (fix_normalize_file s p False backup' ext' fx m fl) of
           Inl e \<Rightarrow> True
         | Inr (l, a, b, c) \<Rightarrow> a = DryRun \<longrightarrow>
             fix_normalize_file s p True True ext fx m fl = (Inr (l, BackupExists, b, c), s)"
  using assms
  by (simp add: fix_normalize_file_def Let_def case_prod_beta split: sum.splits option.splits)

text \<open>
  What the outcome \<^verbatim>\<open>dry-run\<close> of a run that does not write stands for: the file
  was read, classified with a label that has a decoder, decoded, and the change
  test of the driver succeeded.
\<close>

lemma normalize_file_dry_run_iff:
  "fst (normalize_file s p True backup ext) = Inr (l, DryRun) \<longleftrightarrow>
     (\<exists>data t new_bytes.
        s p = Some (File data) \<and> classify data = l \<and> l \<notin> {Binary, Utf8BomInvalid} \<and>
        decode_bytes data l = Inr (Some t) \<and> utf8_encode t = Some new_bytes \<and>
        new_bytes \<noteq> data)"
  by (auto simp: normalize_file_def read_bytes_def Let_def raise_encode_def
      split: option.splits node.splits sum.splits)

lemma fix_normalize_file_dry_run_iff:
  "fst (fix_normalize_file s p False backup ext fx m fl) = Inr (l, DryRun, b, c) \<longleftrightarrow>
     (\<exists>data t0.
        s p = Some (File data) \<and> classify data = l \<and> l \<notin> {Binary, Utf8BomInvalid} \<and>
        decode_bytes data l = Inr (Some t0) \<and> b = mojibake_score t0 \<and>
        (let r = (if fx then fix_utf8_in_cp1252 t0 else (t0, False));
             mapped = (case m of Some mp \<Rightarrow> fl \<and> mp \<noteq> [] \<and> apply_map (fst r) mp \<noteq> fst r
                       | None \<Rightarrow> False)
         in (snd r \<or> mapped) \<and>
            c = mojibake_score
                  (case m of
                     Some mp \<Rightarrow> if mapped then apply_map (fst r) mp else fst r
                   | None \<Rightarrow> fst r)))"
proof (cases "s p")
  case None
  then show ?thesis by (simp add: fix_normalize_file_def read_bytes_def)
next
  case (Some nd)
  show ?thesis
  proof (cases nd)
    case Dir
    with Some show ?thesis by (simp add: fix_normalize_file_def read_bytes_def)
  next
    case (File data)
    with Some have f: "s p = Some (File data)" by simp
    show ?thesis
    proof (cases "decode_bytes data (classify data)")
      case (Inl e)
      with f show ?thesis
        by (auto simp: fix_normalize_file_def read_bytes_def Let_def)
    next
      case (Inr r)
      show ?thesis
      proof (cases r)
        case None
        with f Inr show ?thesis
          by (auto simp: fix_normalize_file_def read_bytes_def Let_def)
      next
        case (Some t0)
        with f Inr show ?thesis
          by (cases m) (auto simp: fix_normalize_file_def read_bytes_def Let_def case_prod_beta)
      qed
    qed
  qed
qed

lemmas fs_defs =
  read_bytes_def write_bytes_def path_exists_def is_file_def st_size_def path_name_def
  with_name_def

text \<open>
  Claim C7. In both drivers: when a change is detected for a file (the run that
  does not write reports \<^verbatim>\<open>dry-run\<close>, see \<open>normalize_file_dry_run_iff\<close> and
  \<open>fix_normalize_file_dry_run_iff\<close>), writing and backup are enabled, and the
  backup path \<^verbatim>\<open>path.with_name(path.name + backup_ext)\<close> exists, then
  \<^verbatim>\<open>normalize_file\<close> returns \<^verbatim>\<open>backup-exists\<close> and leaves the file system as it
  was: neither the file nor the existing backup is written.
\<close>

theorem backup_guard:
  assumes "with_name p (path_name p @ ext) = Inr bp" and "path_exists s bp"
  shows "(fst (normalize_file s p True backup' ext') = Inr (l, DryRun) \<longrightarrow>
            normalize_file s p False True ext = (Inr (l, BackupExists), s)) \<and>
         (fst (fix_normalize_file s p False backup' ext' fx m fl) = Inr (l', DryRun, b, c) \<longrightarrow>
            fix_normalize_file s p True True ext fx m fl = (Inr (l', BackupExists, b, c), s))"
  using normalize_file_backup_exists [OF assms, where backup' = backup' and ext' = ext']
    fix_normalize_file_backup_exists [OF assms, where backup' = backup' and ext' = ext'
      and fx = fx and m = m and fl = fl]
  by auto

theorem backup_guard_witness:
  "with_name [''a.bas''] (path_name [''a.bas''] @ ''.bak'') = Inr [''a.bas.bak''] \<and>
   path_exists
     (Map.empty([''a.bas''] \<mapsto> File [0xEF, 0xBB, 0xBF, 0x68, 0x69], [''a.bas.bak''] \<mapsto> File [0x41]))
     [''a.bas.bak''] \<and>
   fst (normalize_file
     (Map.empty([''a.bas''] \<mapsto> File [0xEF, 0xBB, 0xBF, 0x68, 0x69], [''a.bas.bak''] \<mapsto> File [0x41]))
     [''a.bas''] True False ''.bak'') = Inr (Utf8Bom, DryRun) \<and>
   normalize_file
     (Map.empty([''a.bas''] \<mapsto> File [0xEF, 0xBB, 0xBF, 0x68, 0x69], [''a.bas.bak''] \<mapsto> File [0x41]))
     [''a.bas''] False True ''.bak''
     = (Inr (Utf8Bom, BackupExists),
        Map.empty([''a.bas''] \<mapsto> File [0xEF, 0xBB, 0xBF, 0x68, 0x69], [''a.bas.bak''] \<mapsto> File [0x41])) \<and>
   path_exists
     (Map.empty([''a.bas''] \<mapsto> File [0xC3, 0x83, 0xC2, 0xA9], [''a.bas.bak''] \<mapsto> File [0x41]))
     [''a.bas.bak''] \<and>
   fst (fix_normalize_file
     (Map.empty([''a.bas''] \<mapsto> File [0xC3, 0x83, 0xC2, 0xA9], [''a.bas.bak''] \<mapsto> File [0x41]))
     [''a.bas''] False False ''.bak'' True None False) = Inr (Utf8, DryRun, 1, 0) \<and>
   fix_normalize_file
     (Map.empty([''a.bas''] \<mapsto> File [0xC3, 0x83, 0xC2, 0xA9], [''a.bas.bak''] \<mapsto> File [0x41]))
     [''a.bas''] True True ''.bak'' True None False
     = (Inr (Utf8, BackupExists, 1, 0),
        Map.empty([''a.bas''] \<mapsto> File [0xC3, 0x83, 0xC2, 0xA9], [''a.bas.bak''] \<mapsto> File [0x41]))"
proof -
  let ?s1 = "Map.empty([''a.bas''] \<mapsto> File [0xEF, 0xBB, 0xBF, 0x68, 0x69],
               [''a.bas.bak''] \<mapsto> File [0x41 :: byte])"
  let ?s2 = "Map.empty([''a.bas''] \<mapsto> File [0xC3, 0x83, 0xC2, 0xA9],
               [''a.bas.bak''] \<mapsto> File [0x41 :: byte])"
  have w: "with_name [''a.bas''] (path_name [''a.bas''] @ ''.bak'') = Inr [''a.bas.bak'']"
    by (simp add: fs_defs)
  have e1: "path_exists ?s1 [''a.bas.bak'']" and e2: "path_exists ?s2 [''a.bas.bak'']"
    by (simp_all add: fs_defs)
  have d1: "fst (normalize_file ?s1 [''a.bas''] True False ''.bak'') = Inr (Utf8Bom, DryRun)"
    by (simp add: normalize_file_def fs_defs classify_defs codec_defs)
  have d2: "fst (fix_normalize_file ?s2 [''a.bas''] False False ''.bak'' True None False)
              = Inr (Utf8, DryRun, 1, 0)"
    by (simp add: fix_normalize_file_def fs_defs classify_defs codec_defs repair_defs)
  from backup_guard [OF w e1, where backup' = False and ext' = "''.bak''" and l = Utf8Bom] d1
  have r1: "normalize_file ?s1 [''a.bas''] False True ''.bak'' = (Inr (Utf8Bom, BackupExists), ?s1)"
    by blast
  from backup_guard [OF w e2, where backup' = False and ext' = "''.bak''" and fx = True
      and m = None and fl = False and l' = Utf8 and b = 1 and c = 0] d2
  have r2: "fix_normalize_file ?s2 [''a.bas''] True True ''.bak'' True None False
              = (Inr (Utf8, BackupExists, 1, 0), ?s2)"
    by blast
  from w e1 e2 d1 d2 r1 r2 show ?thesis by (intro conjI)
qed

text \<open>
  Claim C1, as stated: no driver modifies a file unless an apply flag is set,
  the default being a dry run. The normalizer has no apply flag; it has
  \<^verbatim>\<open>--dry-run\<close>, which \<^verbatim>\<open>argparse\<close> leaves \<^verbatim>\<open>False\<close> by default. Run with its default
  options on a file that holds a byte-order mark and \<^verbatim>\<open>hi\<close>, it rewrites the
  file.
\<close>

theorem normalizer_writes_by_default:
  "\<not> n_dry_run normalizer_defaults \<and>
   normalizer_main (Map.empty([''a.bas''] \<mapsto> File [0xEF, 0xBB, 0xBF, 0x68, 0x69]))
       [ [''a.bas''] ] normalizer_defaults
     = (0, [([''a.bas''], 2, Utf8Bom, Write)], Map.empty([''a.bas''] \<mapsto> File [0x68, 0x69]))"
  by (simp add: normalizer_main_def normalizer_defaults_def normalize_file_def fs_defs
      classify_defs codec_defs)

text \<open>
  Claim C1, amended. The fixer writes only under \<^verbatim>\<open>--apply\<close>: without it (the
  default) the whole run leaves the file system unchanged, and a file for which
  the applying run would write or meet an existing backup is reported as
  \<^verbatim>\<open>dry-run\<close>. The normalizer's gate is \<^verbatim>\<open>--dry-run\<close>: when that flag is set the
  run leaves the file system unchanged and such a file is reported as
  \<^verbatim>\<open>dry-run\<close>.
\<close>

theorem no_write_without_apply:
  "(\<not> f_apply args \<longrightarrow> snd (snd (fixer_main s ps args)) = s) \<and>
   snd (fix_normalize_file s p False backup ext fx m fl) = s \<and>
   (fst (fix_normalize_file s p True backup ext fx m fl) = Inr (l, a, b, c) \<and>
    a \<in> {Write, BackupExists} \<longrightarrow>
      fst (fix_normalize_file s p False backup ext fx m fl) = Inr (l, DryRun, b, c)) \<and>
   (n_dry_run nargs \<longrightarrow> snd (snd (normalizer_main s ps nargs)) = s) \<and>
   snd (normalize_file s p True backup ext) = s \<and>
   (fst (normalize_file s p False backup ext) = Inr (l', a') \<and> a' \<in> {Write, BackupExists} \<longrightarrow>
      fst (normalize_file s p True backup ext) = Inr (l', DryRun))"
proof (intro conjI impI)
  assume "\<not> f_apply args"
  then show "snd (snd (fixer_main s ps args)) = s" by (rule fixer_main_no_apply)
next
  show "snd (fix_normalize_file s p False backup ext fx m fl) = s"
    by (rule fix_normalize_file_no_apply_fs)
next
  assume "fst (fix_normalize_file s p True backup ext fx m fl) = Inr (l, a, b, c) \<and>
    a \<in> {Write, BackupExists}"
  with fix_normalize_file_detected [of s p backup ext fx m fl backup ext]
  show "fst (fix_normalize_file s p False backup ext fx m fl) = Inr (l, DryRun, b, c)"
    by auto
next
  assume "n_dry_run nargs"
  then show "snd (snd (normalizer_main s ps nargs)) = s" by (rule normalizer_main_dry_run)
next
  show "snd (normalize_file s p True backup ext) = s"
    by (rule normalize_file_dry_run_fs)
next
  assume "fst (normalize_file s p False backup ext) = Inr (l', a') \<and> a' \<in> {Write, BackupExists}"
  with normalize_file_detected [of s p backup ext backup ext]
  show "fst (normalize_file s p True backup ext) = Inr (l', DryRun)"
    by auto
qed

theorem no_write_without_apply_witness:
  "\<not> f_apply fixer_defaults \<and>
   snd (snd (fixer_main (Map.empty([''a.bas''] \<mapsto> File [0xC3, 0x83, 0xC2, 0xA9]))
               [ [''a.bas''] ] fixer_defaults))
     = Map.empty([''a.bas''] \<mapsto> File [0xC3, 0x83, 0xC2, 0xA9]) \<and>
   fst (fix_normalize_file (Map.empty([''a.bas''] \<mapsto> File [0xC3, 0x83, 0xC2, 0xA9]))
          [''a.bas''] True False ''.bak'' True None False) = Inr (Utf8, Write, 1, 0) \<and>
   fst (fix_normalize_file (Map.empty([''a.bas''] \<mapsto> File [0xC3, 0x83, 0xC2, 0xA9]))
          [''a.bas''] False False ''.bak'' True None False) = Inr (Utf8, DryRun, 1, 0) \<and>
   n_dry_run (normalizer_defaults\<lparr>n_dry_run := True\<rparr>) \<and>
   snd (snd (normalizer_main (Map.empty([''a.bas''] \<mapsto> File [0xC3, 0x83, 0xC2, 0xA9]))
               [ [''a.bas''] ] (normalizer_defaults\<lparr>n_dry_run := True\<rparr>)))
     = Map.empty([''a.bas''] \<mapsto> File [0xC3, 0x83, 0xC2, 0xA9]) \<and>
   fst (normalize_file (Map.empty([''b.bas''] \<mapsto> File [0xEF, 0xBB, 0xBF, 0x68, 0x69]))
          [''b.bas''] False False ''.bak'') = Inr (Utf8Bom, Write) \<and>
   fst (normalize_file (Map.empty([''b.bas''] \<mapsto> File [0xEF, 0xBB, 0xBF, 0x68, 0x69]))
          [''b.bas''] True False ''.bak'') = Inr (Utf8Bom, DryRun)"
proof -
  let ?s = "Map.empty([''a.bas''] \<mapsto> File [0xC3, 0x83, 0xC2, 0xA9 :: byte])"
  let ?t = "Map.empty([''b.bas''] \<mapsto> File [0xEF, 0xBB, 0xBF, 0x68, 0x69 :: byte])"
  have f: "\<not> f_apply fixer_defaults" by (simp add: fixer_defaults_def)
  have n: "n_dry_run (normalizer_defaults\<lparr>n_dry_run := True\<rparr>)" by simp
  have w: "fst (fix_normalize_file ?s [''a.bas''] True False ''.bak'' True None False)
             = Inr (Utf8, Write, 1, 0) \<and> Write \<in> {Write, BackupExists}"
    by (simp add: fix_normalize_file_def fs_defs classify_defs codec_defs repair_defs)
  have v: "fst (normalize_file ?t [''b.bas''] False False ''.bak'') = Inr (Utf8Bom, Write)
             \<and> Write \<in> {Write, BackupExists}"
    by (simp add: normalize_file_def fs_defs classify_defs codec_defs)
  from no_write_without_apply [where args = fixer_defaults and s = ?s and ps = "[ [''a.bas''] ]"
      and p = "[''a.bas'']" and backup = False and ext = "''.bak''" and fx = True and m = None
      and fl = False and l = Utf8 and a = Write and b = 1 and c = 0
      and nargs = "normalizer_defaults\<lparr>n_dry_run := True\<rparr>"] f n w
  have a: "snd (snd (fixer_main ?s [ [''a.bas''] ] fixer_defaults)) = ?s"
    and b: "fst (fix_normalize_file ?s [''a.bas''] False False ''.bak'' True None False)
              = Inr (Utf8, DryRun, 1, 0)"
    and c: "snd (snd (normalizer_main ?s [ [''a.bas''] ] (normalizer_defaults\<lparr>n_dry_run := True\<rparr>))) = ?s"
    by blast+
  from no_write_without_apply [where s = ?t and p = "[''b.bas'']" and backup = False
      and ext = "''.bak''" and l' = Utf8Bom and a' = Write] v
  have d: "fst (normalize_file ?t [''b.bas''] True False ''.bak'') = Inr (Utf8Bom, DryRun)"
    by blast
  from f a w b n c v d show ?thesis by blast
qed

section \<open>The substitution map\<close>

lemma startswith_take: "startswith t k \<longleftrightarrow> take (length k) t = k"
  by (induction t k rule: startswith.induct) auto

lemma startswith_append: "startswith (k @ r) k"
  by (simp add: startswith_take)

lemma replace_from_absent:
  assumes "\<forall>a r. t \<noteq> a @ k @ r"
  shows "replace_from k v t = t"
  using assms
proof (induction t)
  case Nil
  show ?case by simp
next
  case (Cons c cs)
  have "\<not> startswith (c # cs) k"
  proof
    assume "startswith (c # cs) k"
    then have "c # cs = [] @ k @ drop (length k) (c # cs)"
      by (metis startswith_take append_Nil append_take_drop_id)
    with Cons.prems show False by blast
  qed
  moreover have "\<forall>a r. cs \<noteq> a @ k @ r"
  proof (intro allI notI)
    fix a r assume "cs = a @ k @ r"
    then have "c # cs = (c # a) @ k @ r" by simp
    with Cons.prems show False by blast
  qed
  ultimately show ?case using Cons.IH by simp
qed

lemma replace_from_first:
  assumes "k \<noteq> []" and "\<forall>a' r'. a @ butlast k \<noteq> a' @ k @ r'"
  shows "replace_from k v (a @ k @ r) = a @ v @ replace_from k v r"
  using assms(2)
proof (induction a)
  case Nil
  from assms(1) obtain c k' where k: "k = c # k'" by (cases k) auto
  have "startswith (k @ r) k" by (rule startswith_append)
  with k show ?case by simp
next
  case (Cons c a)
  have "\<not> startswith (c # a @ k @ r) k"
  proof
    assume "startswith (c # a @ k @ r) k"
    then have t: "take (length k) ((c # a) @ k @ r) = k"
      by (simp add: startswith_take)
    have "(c # a) @ k @ r = ((c # a) @ butlast k) @ (last k # r)"
      using assms(1) by simp
    moreover have "length k \<le> length ((c # a) @ butlast k)" by simp
    ultimately have "take (length k) ((c # a) @ butlast k) = k"
      using t by (metis append_eq_conv_conj append_take_drop_id take_append take_all_iff
          append_Nil2)
    then have "(c # a) @ butlast k = [] @ k @ drop (length k) ((c # a) @ butlast k)"
      by (metis append_Nil append_take_drop_id)
    with Cons.prems show False by blast
  qed
  moreover have "\<forall>a' r'. a @ butlast k \<noteq> a' @ k @ r'"
  proof (intro allI notI)
    fix a' r' assume "a @ butlast k = a' @ k @ r'"
    then have "(c # a) @ butlast k = (c # a') @ k @ r'" by simp
    with Cons.prems show False by blast
  qed
  ultimately show ?case using Cons.IH by simp
qed

lemma map_of_dict_set: "map_of (dict_set d k v) = (map_of d)(k \<mapsto> v)"
  by (induction d k v rule: dict_set.induct) (auto simp: fun_eq_iff)

lemma map_of_dict_update: "map_of (dict_update d other) = map_of d ++ map_of (rev other)"
  unfolding dict_update_def
proof (induction other arbitrary: d)
  case Nil
  show ?case by simp
next
  case (Cons x xs)
  obtain k v where x: "x = (k, v)" by (cases x)
  have "map_of (foldl (\<lambda>m (k, v). dict_set m k v) (dict_set d k v) xs)
          = map_of (dict_set d k v) ++ map_of (rev xs)"
    by (rule Cons.IH)
  also have "\<dots> = map_of d ++ map_of (rev (x # xs))"
    by (simp add: x map_of_dict_set fun_eq_iff map_add_def split: option.splits)
  finally show ?case by (simp add: x)
qed

lemma map_of_rev_distinct: "distinct (map fst xs) \<Longrightarrow> map_of (rev xs) = map_of xs"
  by (simp add: distinct_map map_of_inject_set)

lemma keys_dict_set:
  "map fst (dict_set d k v) = (if k \<in> fst ` set d then map fst d else map fst d @ [k])"
  by (induction d k v rule: dict_set.induct) auto

lemma build_mapping_dict:
  "(case fst (build_mapping args) of None \<Rightarrow> [] | Some m \<Rightarrow> m) =
     (case f_map args of
        None \<Rightarrow> (if f_spanish_defaults args then dict_update [] SPANISH_DEFAULTS else [])
      | Some ext \<Rightarrow>
          dict_update (if f_spanish_defaults args then dict_update [] SPANISH_DEFAULTS else []) ext)"
  by (simp add: build_mapping_def Let_def split: option.splits)

lemma build_mapping_lookup:
  assumes "f_map args = Some ext" and "distinct (map fst ext)"
  shows "map_of (case fst (build_mapping args) of None \<Rightarrow> [] | Some m \<Rightarrow> m) k =
           (case map_of ext k of
              Some v \<Rightarrow> Some v
            | None \<Rightarrow> if f_spanish_defaults args then map_of SPANISH_DEFAULTS k else None)"
proof -
  have d: "distinct (map fst SPANISH_DEFAULTS)"
    by (simp add: SPANISH_DEFAULTS_def ascii_def)
  show ?thesis
    unfolding build_mapping_dict
    using assms
    by (simp add: map_of_dict_update map_of_rev_distinct d map_add_def split: option.splits)
qed

lemma apply_map_Cons: "apply_map t ((k, v) # m) = apply_map (str_replace t k v) m"
  by (simp add: apply_map_def)

lemma apply_map_snoc: "apply_map t (m @ [(k, v)]) = str_replace (apply_map t m) k v"
  by (simp add: apply_map_def)

lemma fix_normalize_file_map_applied:
  assumes "s p = Some (File data)" and "classify data \<notin> {Binary, Utf8BomInvalid}"
    and "decode_bytes data (classify data) = Inr (Some t0)" and "mp \<noteq> []"
    and "t1 = fst (if fx then fix_utf8_in_cp1252 t0 else (t0, False))"
    and "apply_map t1 mp \<noteq> t1"
  shows "fst (fix_normalize_file s p False bk bext fx (Some mp) True) =
           Inr (classify data, DryRun, mojibake_score t0, mojibake_score (apply_map t1 mp))"
  using assms
  by (simp add: fix_normalize_file_def read_bytes_def Let_def case_prod_beta)

text \<open>
  Claim C9. The mapping that \<^verbatim>\<open>main\<close> builds looks a key of the loaded JSON
  object up to the loaded value, also when the built-in table has the key, and
  any other key to its built-in value. \<^verbatim>\<open>apply_map\<close> goes through the mapping in
  its order, each \<^verbatim>\<open>replace\<close> working on the text the previous ones left; a
  \<^verbatim>\<open>replace\<close> with a key that does not occur changes nothing, and otherwise puts
  the value for the leftmost occurrence and goes on behind it. In
  \<^verbatim>\<open>normalize_file\<close> the mapped text is taken whenever it differs from the text
  after the mojibake repair, whatever its score.
\<close>

theorem substitution_map_semantics:
  "(f_map args = Some ext \<and> distinct (map fst ext) \<longrightarrow>
      map_of (case fst (build_mapping args) of None \<Rightarrow> [] | Some m \<Rightarrow> m) k =
        (case map_of ext k of
           Some v \<Rightarrow> Some v
         | None \<Rightarrow> if f_spanish_defaults args then map_of SPANISH_DEFAULTS k else None)) \<and>
   apply_map t [] = t \<and>
   apply_map t ((key, val) # m) = apply_map (str_replace t key val) m \<and>
   (key \<noteq> [] \<and> (\<forall>a r. t \<noteq> a @ key @ r) \<longrightarrow> str_replace t key val = t) \<and>
   (key \<noteq> [] \<and> (\<forall>a' r'. a @ butlast key \<noteq> a' @ key @ r') \<longrightarrow>
      str_replace (a @ key @ r) key val = a @ val @ str_replace r key val) \<and>
   (s p = Some (File data) \<and> classify data \<notin> {Binary, Utf8BomInvalid} \<and>
    decode_bytes data (classify data) = Inr (Some t0) \<and> mp \<noteq> [] \<and>
    t1 = fst (if fx then fix_utf8_in_cp1252 t0 else (t0, False)) \<and>
    apply_map t1 mp \<noteq> t1 \<longrightarrow>
      fst (fix_normalize_file s p False bk bext fx (Some mp) True) =
        Inr (classify data, DryRun, mojibake_score t0, mojibake_score (apply_map t1 mp)))"
proof (intro conjI impI)
  assume "f_map args = Some ext \<and> distinct (map fst ext)"
  then show "map_of (case fst (build_mapping args) of None \<Rightarrow> [] | Some m \<Rightarrow> m) k =
        (case map_of ext k of
           Some v \<Rightarrow> Some v
         | None \<Rightarrow> if f_spanish_defaults args then map_of SPANISH_DEFAULTS k else None)"
    using build_mapping_lookup [of args ext k] by blast
next
  show "apply_map t [] = t" by (simp add: apply_map_def)
next
  show "apply_map t ((key, val) # m) = apply_map (str_replace t key val) m"
    by (rule apply_map_Cons)
next
  assume "key \<noteq> [] \<and> (\<forall>a r. t \<noteq> a @ key @ r)"
  then show "str_replace t key val = t"
    using replace_from_absent [of t key val] by (simp add: str_replace_def)
next
  assume "key \<noteq> [] \<and> (\<forall>a' r'. a @ butlast key \<noteq> a' @ key @ r')"
  then show "str_replace (a @ key @ r) key val = a @ val @ str_replace r key val"
    using replace_from_first [of key a val r] by (simp add: str_replace_def)
next
  assume "s p = Some (File data) \<and> classify data \<notin> {Binary, Utf8BomInvalid} \<and>
    decode_bytes data (classify data) = Inr (Some t0) \<and> mp \<noteq> [] \<and>
    t1 = fst (if fx then fix_utf8_in_cp1252 t0 else (t0, False)) \<and>
    apply_map t1 mp \<noteq> t1"
  then show "fst (fix_normalize_file s p False bk bext fx (Some mp) True) =
        Inr (classify data, DryRun, mojibake_score t0, mojibake_score (apply_map t1 mp))"
    using fix_normalize_file_map_applied [of s p data t0 mp t1 fx bk bext] by blast
qed

theorem substitution_map_semantics_witness:
  "map_of (case fst (build_mapping
      (fixer_defaults\<lparr>f_spanish_defaults := True,
         f_map := Some [(ascii ''a'' @ [0xFFFD] @ ascii ''o'', ascii ''anno'')]\<rparr>)) of
        None \<Rightarrow> [] | Some m \<Rightarrow> m) (ascii ''a'' @ [0xFFFD] @ ascii ''o'') = Some (ascii ''anno'') \<and>
   map_of SPANISH_DEFAULTS (ascii ''a'' @ [0xFFFD] @ ascii ''o'') = Some (ascii ''a'' @ [0xF1] @ ascii ''o'') \<and>
   str_replace (ascii ''abc'') (ascii ''x'') (ascii ''y'') = ascii ''abc'' \<and>
   str_replace (ascii ''m'' @ [0xFFFD] @ ascii ''todo'') [0xFFFD] [0xE9]
     = ascii ''m'' @ [0xE9] @ str_replace (ascii ''todo'') [0xFFFD] [0xE9] \<and>
   fst (fix_normalize_file (Map.empty([''a.bas''] \<mapsto> File [0x61])) [''a.bas''] False False ''.bak''
          True (Some [(ascii ''a'', [0xC3])]) True)
     = Inr (AsciiOnly, DryRun, 0, 1)"
proof -
  let ?k = "ascii ''a'' @ [0xFFFD] @ ascii ''o''"
  let ?args = "fixer_defaults\<lparr>f_spanish_defaults := True, f_map := Some [(?k, ascii ''anno'')]\<rparr>"
  let ?s = "Map.empty([''a.bas''] \<mapsto> File [0x61 :: byte])"
  have h1: "f_map ?args = Some [(?k, ascii ''anno'')] \<and> distinct (map fst [(?k, ascii ''anno'')])"
    by simp
  have c1: "map_of (case fst (build_mapping ?args) of None \<Rightarrow> [] | Some m \<Rightarrow> m) ?k
              = Some (ascii ''anno'')"
    using substitution_map_semantics [where args = ?args and ext = "[(?k, ascii ''anno'')]"
        and k = ?k] h1
    by simp
  have d: "map_of SPANISH_DEFAULTS ?k = Some (ascii ''a'' @ [0xF1] @ ascii ''o'')"
    by (simp add: SPANISH_DEFAULTS_def ascii_def)
  have h2: "ascii ''x'' \<noteq> [] \<and> (\<forall>a r. ascii ''abc'' \<noteq> a @ ascii ''x'' @ r)"
  proof (intro conjI allI)
    show "ascii ''x'' \<noteq> []" by (simp add: ascii_def)
  next
    fix a r show "ascii ''abc'' \<noteq> a @ ascii ''x'' @ r"
    proof
    assume "ascii ''abc'' = a @ ascii ''x'' @ r"
    moreover have "(120::nat) \<in> set (a @ ascii ''x'' @ r)" by (simp add: ascii_def)
    ultimately have "(120::nat) \<in> set (ascii ''abc'')" by simp
    then show False by (simp add: ascii_def)
    qed
  qed
  have c2: "str_replace (ascii ''abc'') (ascii ''x'') (ascii ''y'') = ascii ''abc''"
    using substitution_map_semantics [where t = "ascii ''abc''" and key = "ascii ''x''"
        and val = "ascii ''y''"] h2
    by blast
  have h3: "[0xFFFD] \<noteq> ([] :: str) \<and>
      (\<forall>a' r'. ascii ''m'' @ butlast [0xFFFD] \<noteq> a' @ [0xFFFD] @ r')"
  proof (intro conjI allI)
    show "[0xFFFD] \<noteq> ([] :: str)" by simp
  next
    fix a' r' show "ascii ''m'' @ butlast [0xFFFD] \<noteq> a' @ [0xFFFD] @ r'"
    proof
    assume "ascii ''m'' @ butlast [0xFFFD] = a' @ [0xFFFD] @ r'"
    moreover have "(0xFFFD::nat) \<in> set (a' @ [0xFFFD] @ r')" by simp
    ultimately have "(0xFFFD::nat) \<in> set (ascii ''m'' @ butlast [0xFFFD])" by simp
    then show False by (simp add: ascii_def)
    qed
  qed
  have c3: "str_replace (ascii ''m'' @ [0xFFFD] @ ascii ''todo'') [0xFFFD] [0xE9]
     = ascii ''m'' @ [0xE9] @ str_replace (ascii ''todo'') [0xFFFD] [0xE9]"
    using substitution_map_semantics [where a = "ascii ''m''" and key = "[0xFFFD]"
        and val = "[0xE9]" and r = "ascii ''todo''"] h3
    by blast
  have h4: "?s [''a.bas''] = Some (File [0x61]) \<and> classify [0x61] \<notin> {Binary, Utf8BomInvalid} \<and>
    decode_bytes [0x61] (classify [0x61]) = Inr (Some [0x61]) \<and>
    [(ascii ''a'', [0xC3])] \<noteq> [] \<and>
    [0x61] = fst (if True then fix_utf8_in_cp1252 [0x61] else ([0x61], False)) \<and>
    apply_map [0x61] [(ascii ''a'', [0xC3])] \<noteq> [0x61]"
    by (simp add: classify_defs codec_defs repair_defs apply_map_def)
  have c: "classify [0x61] = AsciiOnly" by (simp add: classify_defs)
  have sc: "mojibake_score [0x61] = 0 \<and> mojibake_score (apply_map [0x61] [(ascii ''a'', [0xC3])]) = 1"
    by (simp add: codec_defs repair_defs apply_map_def)
  have c4: "fst (fix_normalize_file ?s [''a.bas''] False False ''.bak''
          True (Some [(ascii ''a'', [0xC3])]) True) = Inr (AsciiOnly, DryRun, 0, 1)"
    using substitution_map_semantics [where s = ?s and p = "[''a.bas'']" and data = "[0x61]"
        and ?t0.0 = "[0x61]" and mp = "[(ascii ''a'', [0xC3])]" and ?t1.0 = "[0x61]" and fx = True
        and bk = False and bext = "''.bak''"] h4 c sc
    by simp
  from c1 d c2 c3 c4 show ?thesis by (intro conjI)
qed

section \<open>UTF-8: decoding what the encoder wrote\<close>

lemma unat_byte_of_nat: "n < 256 \<Longrightarrow> unat (of_nat n :: byte) = n"
  by (simp add: unat_of_nat)

lemma utf8_decode_1:
  "unat b0 < 0x80 \<Longrightarrow> utf8_decode (b0 # rest) = map_option ((#) (unat b0)) (utf8_decode rest)"
  by simp

lemma utf8_decode_2:
  assumes "unat b0 = 0xC0 + q" "unat b1 = 0x80 + r" "2 \<le> q" "q < 32" "r < 64"
  shows "utf8_decode (b0 # b1 # rest) = map_option ((#) (q * 64 + r)) (utf8_decode rest)"
  using assms by (simp add: is_cont_def cont_bits_def)

lemma utf8_decode_3:
  assumes "unat b0 = 0xE0 + a" "unat b1 = 0x80 + q" "unat b2 = 0x80 + r"
    "a < 16" "q < 64" "r < 64" "a = 0 \<longrightarrow> 32 \<le> q" "a = 13 \<longrightarrow> q < 32"
  shows "utf8_decode (b0 # b1 # b2 # rest)
           = map_option ((#) (a * 4096 + q * 64 + r)) (utf8_decode rest)"
  using assms by (auto simp: is_cont_def cont_bits_def second_ok3_def)

lemma utf8_decode_4:
  assumes "unat b0 = 0xF0 + a" "unat b1 = 0x80 + p" "unat b2 = 0x80 + q" "unat b3 = 0x80 + r"
    "a < 5" "p < 64" "q < 64" "r < 64" "a = 0 \<longrightarrow> 16 \<le> p" "a = 4 \<longrightarrow> p < 16"
  shows "utf8_decode (b0 # b1 # b2 # b3 # rest)
           = map_option ((#) (a * 262144 + p * 4096 + q * 64 + r)) (utf8_decode rest)"
  using assms by (auto simp: is_cont_def cont_bits_def second_ok4_def)

lemma code_point_split3: "(c::nat) = (c div 4096) * 4096 + ((c div 64) mod 64) * 64 + c mod 64"
proof -
  define d where "d = c div 64"
  have "c div 4096 = d div 64" unfolding d_def using div_mult2_eq [of c 64 64] by simp
  moreover have "d = (d div 64) * 64 + d mod 64" by simp
  moreover have "c = d * 64 + c mod 64" unfolding d_def by simp
  ultimately show ?thesis unfolding d_def by linarith
qed
lemma code_point_split4:
  "(c::nat) = (c div 262144) * 262144 + ((c div 4096) mod 64) * 4096
              + ((c div 64) mod 64) * 64 + c mod 64"
proof -
  define g where "g = c div 4096"
  have "c div 262144 = g div 64" unfolding g_def using div_mult2_eq [of c 4096 64] by simp
  moreover have "g = (g div 64) * 64 + g mod 64" by simp
  moreover have "c = g * 4096 + ((c div 64) mod 64) * 64 + c mod 64"
    unfolding g_def by (rule code_point_split3)
  ultimately show ?thesis unfolding g_def by linarith
qed

lemma utf8_decode_encode_1: assumes "utf8_encode_char c = Some cb" "c < 0x80"
  shows "utf8_decode (cb @ rest) = map_option ((#) c) (utf8_decode rest)"
proof -
  from assms have cb: "cb = [of_nat c]" by (simp add: utf8_encode_char_def)
  from assms have "unat (of_nat c :: byte) = c" by (simp add: unat_byte_of_nat)
  with assms cb utf8_decode_1 [of "of_nat c" rest] show ?thesis by simp
qed

lemma utf8_decode_encode_2: assumes "utf8_encode_char c = Some cb" "0x80 \<le> c" "c < 0x800"
  shows "utf8_decode (cb @ rest) = map_option ((#) c) (utf8_decode rest)"
proof -
    from assms have cb: "cb = [of_nat (0xC0 + c div 64), of_nat (0x80 + c mod 64)]"
      by (simp add: utf8_encode_char_def)
    define q where "q = c div 64"
    define r where "r = c mod 64"
    have c: "c = q * 64 + r" by (simp add: q_def r_def)
    have r: "r < 64" by (simp add: r_def)
    from assms c r have q: "2 \<le> q" "q < 32" by linarith+
    have u0: "unat (of_nat (0xC0 + q) :: byte) = 0xC0 + q"
      using q by (intro unat_byte_of_nat) linarith
    have u1: "unat (of_nat (0x80 + r) :: byte) = 0x80 + r"
      using r by (intro unat_byte_of_nat) linarith
    have "utf8_decode (of_nat (0xC0 + q) # of_nat (0x80 + r) # rest)
            = map_option ((#) (q * 64 + r)) (utf8_decode rest)"
      by (rule utf8_decode_2 [OF u0 u1 q r])
    then show ?thesis unfolding cb q_def r_def by simp
qed

lemma utf8_decode_encode_3: assumes "utf8_encode_char c = Some cb" "0x800 \<le> c" "c < 0x10000" "\<not> (0xD800 \<le> c \<and> c \<le> 0xDFFF)"
  shows "utf8_decode (cb @ rest) = map_option ((#) c) (utf8_decode rest)"
proof -
    from assms have cb: "cb = [of_nat (0xE0 + c div 4096), of_nat (0x80 + (c div 64) mod 64),
              of_nat (0x80 + c mod 64)]"
      by (simp add: utf8_encode_char_def)
    define a where "a = c div 4096"
    define q where "q = (c div 64) mod 64"
    define r where "r = c mod 64"
    have c: "c = a * 4096 + q * 64 + r"
      unfolding a_def q_def r_def by (rule code_point_split3)
    have r: "r < 64" by (simp add: r_def)
    have q: "q < 64" by (simp add: q_def)
    from assms c q r have a: "a < 16" by linarith
    from assms c q r have a0: "a = 0 \<longrightarrow> 32 \<le> q" by linarith
    from assms c q r have a13: "a = 13 \<longrightarrow> q < 32" by linarith
    have u0: "unat (of_nat (0xE0 + a) :: byte) = 0xE0 + a"
      using a by (intro unat_byte_of_nat) linarith
    have u1: "unat (of_nat (0x80 + q) :: byte) = 0x80 + q"
      using q by (intro unat_byte_of_nat) linarith
    have u2: "unat (of_nat (0x80 + r) :: byte) = 0x80 + r"
      using r by (intro unat_byte_of_nat) linarith
    have "utf8_decode (of_nat (0xE0 + a) # of_nat (0x80 + q) # of_nat (0x80 + r) # rest)
            = map_option ((#) (a * 4096 + q * 64 + r)) (utf8_decode rest)"
      by (rule utf8_decode_3 [OF u0 u1 u2 a q r a0 a13])
    then have "utf8_decode (of_nat (0xE0 + a) # of_nat (0x80 + q) # of_nat (0x80 + r) # rest)
            = map_option ((#) c) (utf8_decode rest)"
      by (simp only: c [symmetric])
    then show ?thesis unfolding cb a_def q_def r_def by simp
qed

lemma utf8_decode_encode_4: assumes "utf8_encode_char c = Some cb" "0x10000 \<le> c" "c < 0x110000"
  shows "utf8_decode (cb @ rest) = map_option ((#) c) (utf8_decode rest)"
proof -
    from assms have cb: "cb = [of_nat (0xF0 + c div 262144), of_nat (0x80 + (c div 4096) mod 64),
              of_nat (0x80 + (c div 64) mod 64), of_nat (0x80 + c mod 64)]"
      by (simp add: utf8_encode_char_def)
    define a where "a = c div 262144"
    define p where "p = (c div 4096) mod 64"
    define q where "q = (c div 64) mod 64"
    define r where "r = c mod 64"
    have c: "c = a * 262144 + p * 4096 + q * 64 + r"
      unfolding a_def p_def q_def r_def by (rule code_point_split4)
    have r: "r < 64" by (simp add: r_def)
    have q: "q < 64" by (simp add: q_def)
    have p: "p < 64" by (simp add: p_def)
    from assms c p q r have a: "a < 5" by linarith
    from assms c p q r have a0: "a = 0 \<longrightarrow> 16 \<le> p" by linarith
    from assms c p q r have a4: "a = 4 \<longrightarrow> p < 16" by linarith
    have u0: "unat (of_nat (0xF0 + a) :: byte) = 0xF0 + a"
      using a by (intro unat_byte_of_nat) linarith
    have u1: "unat (of_nat (0x80 + p) :: byte) = 0x80 + p"
      using p by (intro unat_byte_of_nat) linarith
    have u2: "unat (of_nat (0x80 + q) :: byte) = 0x80 + q"
      using q by (intro unat_byte_of_nat) linarith
    have u3: "unat (of_nat (0x80 + r) :: byte) = 0x80 + r"
      using r by (intro unat_byte_of_nat) linarith
    have "utf8_decode (of_nat (0xF0 + a) # of_nat (0x80 + p) # of_nat (0x80 + q)
              # of_nat (0x80 + r) # rest)
            = map_option ((#) (a * 262144 + p * 4096 + q * 64 + r)) (utf8_decode rest)"
      by (rule utf8_decode_4 [OF u0 u1 u2 u3 a p q r a0 a4])
    then have "utf8_decode (of_nat (0xF0 + a) # of_nat (0x80 + p) # of_nat (0x80 + q)
              # of_nat (0x80 + r) # rest)
            = map_option ((#) c) (utf8_decode rest)"
      by (simp only: c [symmetric])
    then show ?thesis unfolding cb a_def p_def q_def r_def by simp
qed

lemma utf8_encode_char_rejects:
  "(0xD800 \<le> c \<and> c \<le> 0xDFFF) \<or> 0x110000 \<le> c \<Longrightarrow> utf8_encode_char c = None"
  by (auto simp: utf8_encode_char_def)
lemma utf8_decode_lead:
  "0xF4 < unat b \<Longrightarrow> utf8_decode (b # bs) = None"
  by simp

lemma utf8_encode_ascii:
  "list_all (\<lambda>b. unat b < 0x80) bs \<Longrightarrow> utf8_encode (map unat bs) = Some bs"
  by (induction bs) (simp_all add: utf8_encode_char_def)

lemma utf8_decode_encode_char:
  assumes "utf8_encode_char c = Some cb"
  shows "utf8_decode (cb @ rest) = map_option ((#) c) (utf8_decode rest)"
proof -
  consider (one) "c < 0x80"
    | (two) "0x80 \<le> c" "c < 0x800"
    | (three) "0x800 \<le> c" "c < 0x10000" "\<not> (0xD800 \<le> c \<and> c \<le> 0xDFFF)"
    | (four) "0x10000 \<le> c" "c < 0x110000"
    | (bad) "(0xD800 \<le> c \<and> c \<le> 0xDFFF) \<or> 0x110000 \<le> c"
    by linarith
  then show ?thesis
  proof cases
    case one
    with assms show ?thesis by (rule utf8_decode_encode_1)
  next
    case two
    with assms show ?thesis by (rule utf8_decode_encode_2)
  next
    case three
    with assms show ?thesis by (rule utf8_decode_encode_3)
  next
    case four
    with assms show ?thesis by (rule utf8_decode_encode_4)
  next
    case bad
    with assms utf8_encode_char_rejects [of c] show ?thesis by simp
  qed
qed

lemma utf8_decode_encode:
  "utf8_encode t = Some bs \<Longrightarrow> utf8_decode bs = Some t"
proof (induction t arbitrary: bs)
  case Nil
  then show ?case by simp
next
  case (Cons c cs)
  from Cons.prems obtain cb rest where cb: "utf8_encode_char c = Some cb"
    and rest: "utf8_encode cs = Some rest" and bs: "bs = cb @ rest"
    by (auto split: option.splits)
  from Cons.IH [OF rest] utf8_decode_encode_char [OF cb, of rest] bs
  show ?case by simp
qed

section \<open>Running the normalizer twice\<close>

lemma utf8_no_utf16_mark:
  assumes "utf8_decode nb = Some t"
  shows "\<not> startswith nb [0xFF, 0xFE]" and "\<not> startswith nb [0xFE, 0xFF]"
proof -
  have "\<And>b bs. nb = b # bs \<Longrightarrow> unat b \<le> 0xF4"
  proof (rule ccontr)
    fix b bs assume "nb = b # bs" and "\<not> unat b \<le> 0xF4"
    with utf8_decode_lead [of b bs] assms show False by simp
  qed
  then show "\<not> startswith nb [0xFF, 0xFE]" and "\<not> startswith nb [0xFE, 0xFF]"
    by (cases nb; fastforce)+
qed

lemma raise_encode_Inr: "raise_encode r = Inr nb \<longleftrightarrow> r = Some nb"
  by (simp add: raise_encode_def split: option.splits)

lemma write_bytes_content: "write_bytes s p d = Inr s' \<Longrightarrow> s' p = Some (File d)"
  by (auto simp: write_bytes_def split: option.splits node.splits)

lemma normalize_file_written:
  "fst (normalize_file s p False backup ext) = Inr (l, Write) \<longrightarrow>
     (\<exists>t nb. utf8_encode t = Some nb \<and>
              snd (normalize_file s p False backup ext) p = Some (File nb))"
  by (auto simp: normalize_file_def Let_def raise_encode_Inr
      split: sum.splits option.splits dest: write_bytes_content)

lemma normalize_file_ok_on_utf8:
  assumes f: "s p = Some (File nb)" and e: "utf8_encode t = Some nb"
    and b: "\<not> startswith nb [0xEF, 0xBB, 0xBF]" and z: "0 \<notin> set nb"
  shows "normalize_file s p dry_run backup ext = (Inr (classify nb, Ok), s)"
    and "classify nb \<in> {Utf8, AsciiOnly}"
proof -
  from e have d: "utf8_decode nb = Some t" by (rule utf8_decode_encode)
  from utf8_no_utf16_mark [OF d] b z d
  have cb: "classify_bytes nb = (Utf8, nb)" by (simp add: classify_bytes_def)
  show "classify nb \<in> {Utf8, AsciiOnly}" by (simp add: classify_def cb)
  show "normalize_file s p dry_run backup ext = (Inr (classify nb, Ok), s)"
  proof (cases "list_ex (\<lambda>b. 0x80 \<le> unat b) nb")
    case True
    then have "classify nb = Utf8" by (simp add: classify_def cb)
    with f d e show ?thesis
      by (simp add: normalize_file_def read_bytes_def decode_bytes_def raise_decode_def
          raise_encode_def)
  next
    case False
    then have c: "classify nb = AsciiOnly" by (simp add: classify_def cb)
    from False have a: "list_all (\<lambda>b. unat b < 0x80) nb"
      by (auto simp: list_all_iff list_ex_iff not_le)
    then have "utf8_encode (map unat nb) = Some nb" by (rule utf8_encode_ascii)
    with f c a show ?thesis
      by (simp add: normalize_file_def read_bytes_def decode_bytes_def raise_decode_def
          raise_encode_def ascii_decode_def)
  qed
qed

text \<open>
  Claim C6, as stated: after a run of the normalizer that wrote a file, a second
  run reports \<^verbatim>\<open>ok\<close> and writes nothing. \<^verbatim>\<open>utf-8-sig\<close> drops one byte-order
  mark only: a file that begins with two of them is written with one, and the
  second run writes it again, without any.
\<close>

theorem normalize_twice_double_bom:
  "normalize_file (Map.empty([''a.bas''] \<mapsto> File [0xEF, 0xBB, 0xBF, 0xEF, 0xBB, 0xBF, 0x68, 0x69]))
       [''a.bas''] False False ''.bak''
     = (Inr (Utf8Bom, Write), Map.empty([''a.bas''] \<mapsto> File [0xEF, 0xBB, 0xBF, 0x68, 0x69])) \<and>
   normalize_file (Map.empty([''a.bas''] \<mapsto> File [0xEF, 0xBB, 0xBF, 0x68, 0x69]))
       [''a.bas''] False False ''.bak''
     = (Inr (Utf8Bom, Write), Map.empty([''a.bas''] \<mapsto> File [0x68, 0x69]))"
  by (simp add: normalize_file_def fs_defs classify_defs codec_defs)

text \<open>
  Claim C6, amended. When a run of the normalizer wrote a file, and the bytes it
  wrote neither begin with \<^verbatim>\<open>EF BB BF\<close> nor hold a \<^verbatim>\<open>00\<close> byte, then a second run,
  whatever its options, reports \<^verbatim>\<open>ok\<close> with the label \<^verbatim>\<open>utf8\<close> or \<^verbatim>\<open>ascii-only\<close>
  and leaves the file system as the first run left it.
\<close>

theorem normalize_idempotent:
  assumes "normalize_file s p False backup ext = (Inr (l, Write), s')"
    and "s' p = Some (File nb)"
    and "\<not> startswith nb [0xEF, 0xBB, 0xBF]" and "0 \<notin> set nb"
  shows "\<exists>l'. l' \<in> {Utf8, AsciiOnly} \<and>
              normalize_file s' p dry_run' backup' ext' = (Inr (l', Ok), s')"
proof -
  from assms(1) normalize_file_written [of s p backup ext l]
  obtain t nb' where "utf8_encode t = Some nb'" and "s' p = Some (File nb')"
    by auto
  with assms(2) have e: "utf8_encode t = Some nb" by simp
  from normalize_file_ok_on_utf8(1) [where s = s' and p = p and nb = nb and t = t
      and dry_run = dry_run' and backup = backup' and ext = ext']
    normalize_file_ok_on_utf8(2) [where s = s' and p = p and nb = nb and t = t]
    assms(2,3,4) e
  show ?thesis by blast
qed

theorem normalize_idempotent_witness:
  "normalize_file (Map.empty([''a.bas''] \<mapsto> File [0xEF, 0xBB, 0xBF, 0x68, 0xC3, 0xA9]))
       [''a.bas''] False False ''.bak''
     = (Inr (Utf8Bom, Write), Map.empty([''a.bas''] \<mapsto> File [0x68, 0xC3, 0xA9])) \<and>
   \<not> startswith [0x68, 0xC3, 0xA9 :: byte] [0xEF, 0xBB, 0xBF] \<and>
   0 \<notin> set [0x68, 0xC3, 0xA9 :: byte] \<and>
   normalize_file (Map.empty([''a.bas''] \<mapsto> File [0x68, 0xC3, 0xA9]))
       [''a.bas''] False False ''.bak''
     = (Inr (Utf8, Ok), Map.empty([''a.bas''] \<mapsto> File [0x68, 0xC3, 0xA9]))"
proof -
  let ?s = "Map.empty([''a.bas''] \<mapsto> File [0xEF, 0xBB, 0xBF, 0x68, 0xC3, 0xA9 :: byte])"
  let ?s' = "Map.empty([''a.bas''] \<mapsto> File [0x68, 0xC3, 0xA9 :: byte])"
  have r1: "normalize_file ?s [''a.bas''] False False ''.bak'' = (Inr (Utf8Bom, Write), ?s')"
    by (simp add: normalize_file_def fs_defs classify_defs codec_defs)
  have f: "?s' [''a.bas''] = Some (File [0x68, 0xC3, 0xA9])" by simp
  have b: "\<not> startswith [0x68, 0xC3, 0xA9 :: byte] [0xEF, 0xBB, 0xBF]" by simp
  have z: "0 \<notin> set [0x68, 0xC3, 0xA9 :: byte]" by simp
  have c: "classify [0x68, 0xC3, 0xA9] = Utf8" by (simp add: classify_defs codec_defs)
  from normalize_idempotent [where s = ?s and p = "[''a.bas'']" and backup = False
      and ext = "''.bak''" and l = Utf8Bom and s' = ?s' and nb = "[0x68, 0xC3, 0xA9]"
      and dry_run' = False and backup' = False and ext' = "''.bak''"] r1 f b z
  obtain l' where "normalize_file ?s' [''a.bas''] False False ''.bak'' = (Inr (l', Ok), ?s')"
    by blast
  moreover from this f c have "l' = Utf8"
    by (simp add: normalize_file_def fs_defs codec_defs split: if_splits)
  ultimately show ?thesis using r1 b z by simp
qed

end
